theory Spec2Isabelle
  imports Main "HOL-Library.List_Lexorder"
begin

section \<open>Pre-commit validators of the ontology repository\<close>

text \<open>
  A shallow embedding of \<^verbatim>\<open>src/dati_playground/precommit_validators.py\<close>.
  Python \<^verbatim>\<open>str\<close> and file contents are both \<open>string\<close>; an exception is a value
  of \<open>error\<close> on the left of a sum; the caller's error list and the records handed to
  the logger are passed in and returned.
\<close>

subsection \<open>Paths\<close>

text \<open>
  A \<^verbatim>\<open>pathlib.Path\<close> on POSIX: whether it is anchored at the root, and its components.
\<close>

datatype path = Path (is_absolute: bool) (parts: "string list")

fun join :: "string \<Rightarrow> string list \<Rightarrow> string" where
  "join sep [] = []"
| "join sep [x] = x"
| "join sep (x # y # ys) = x @ sep @ join sep (y # ys)"

text \<open>\<^verbatim>\<open>str(p)\<close> and \<^verbatim>\<open>p.as_posix()\<close>.\<close>

definition as_posix :: "path \<Rightarrow> string" where
  "as_posix p =
     (if is_absolute p then ''/'' @ join ''/'' (parts p)
      else if parts p = [] then ''.'' else join ''/'' (parts p))"

text \<open>\<^verbatim>\<open>p / name\<close> for a name of one component.\<close>

definition joinpath :: "path \<Rightarrow> string \<Rightarrow> path" where
  "joinpath p name = Path (is_absolute p) (parts p @ [name])"

text \<open>\<^verbatim>\<open>p.parent\<close>: the root and the empty relative path are their own parents.\<close>

definition parent :: "path \<Rightarrow> path" where
  "parent p = Path (is_absolute p) (butlast (parts p))"

text \<open>\<^verbatim>\<open>Path(s).is_absolute()\<close> for a string \<open>s\<close>: it starts with a slash.\<close>

definition str_is_absolute :: "string \<Rightarrow> bool" where
  "str_is_absolute s = (case s of [] \<Rightarrow> False | c # _ \<Rightarrow> c = CHR ''/'')"

subsection \<open>Exceptions, log records, the environment\<close>

datatype error =
    ValueError string
  | InvalidVersion string
  | AssertionError
  | OSError path
  | UnicodeDecodeError string
  | SystemExit int
  | ParseException string
  | ValidationException string


text \<open>
  What \<^verbatim>\<open>Graph().parse(path, format="turtle")\<close> raises when it does not return a graph:
  a \<^verbatim>\<open>ValueError\<close> with its message (such as the one for a NUL in the name of the
  file), a \<^verbatim>\<open>UnicodeDecodeError\<close> for a file that is not UTF-8, or another exception
  (a syntax error of the document, an \<^verbatim>\<open>OSError\<close> for a file that cannot be opened)
  with its message.
\<close>

datatype parser_error =
    ParserValueError string
  | ParserUnicodeDecodeError
  | ParserOtherError string

text \<open>
  A record handed to the logger: \<^verbatim>\<open>log.debug(fmt, args)\<close> keeps its format and its
  arguments, \<^verbatim>\<open>log.info\<close> and \<^verbatim>\<open>log.error\<close> are called with the finished message.
\<close>

datatype log_record =
    LogDebug string "string list"
  | LogInfo string
  | LogError string

datatype file_kind = Regular | Directory | Other

text \<open>
  What the program asks of the world around it. Every field is the answer to one kind of
  call; the answers are not assumed to agree with each other, since the file system can
  change between two calls.
  \<^item> \<open>basedir\<close>: \<^verbatim>\<open>Path(__file__).parent\<close>; \<open>cwd\<close>: the components of the working directory;
  \<^item> \<open>path_exists\<close>, \<open>path_is_dir\<close>: \<^verbatim>\<open>Path.exists\<close>, \<^verbatim>\<open>Path.is_dir\<close>;
  \<^item> \<open>glob_star\<close>: the names of the entries of a directory, in the order the system lists
    them (\<^verbatim>\<open>glob("*")\<close>; nothing for a path that is no directory);
  \<^item> \<open>stat\<close>: kind and size, \<open>None\<close> when \<^verbatim>\<open>os.stat\<close> raises \<^verbatim>\<open>OSError\<close>;
  \<^item> \<open>read_bytes\<close>: the content, \<open>None\<close> when opening or reading raises \<^verbatim>\<open>OSError\<close>;
  \<^item> \<open>decode\<close>: the codec of text mode, \<open>None\<close> when the bytes do not decode;
  \<^item> \<open>str_hash\<close>: the order in which a Python set of names is iterated
    (ascending \<open>str_hash\<close>);
  \<^item> \<open>parse_version\<close>: \<^verbatim>\<open>packaging.version.Version\<close>, to its comparison key, \<open>None\<close> for
    \<^verbatim>\<open>InvalidVersion\<close>;
  \<^item> \<open>diff_hunks\<close>: the hunk lines of \<^verbatim>\<open>difflib.unified_diff\<close>;
  \<^item> \<open>parse_turtle\<close>: \<^verbatim>\<open>Graph().parse(path, format="turtle")\<close>, on the left the exception
    it raises;
  \<^item> \<open>shacl_validate\<close>: \<^verbatim>\<open>pyshacl.validate(file, shacl_graph=g, advanced=a)\<close>, on the left
    the message of the \<^verbatim>\<open>Exception\<close> it raises.
\<close>

record ('g, 'v) env =
  basedir :: path
  cwd :: "string list"
  path_exists :: "path \<Rightarrow> bool"
  path_is_dir :: "path \<Rightarrow> bool"
  glob_star :: "path \<Rightarrow> string list"
  stat :: "path \<Rightarrow> (file_kind \<times> nat) option"
  read_bytes :: "path \<Rightarrow> string option"
  decode :: "string \<Rightarrow> string option"
  str_hash :: "string \<Rightarrow> nat"
  parse_version :: "string \<Rightarrow> 'v option"
  diff_hunks :: "string list \<Rightarrow> string list \<Rightarrow> string list"
  parse_turtle :: "string \<Rightarrow> parser_error + 'g"
  shacl_validate :: "string \<Rightarrow> 'g option \<Rightarrow> bool \<Rightarrow> string + (bool \<times> 'g \<times> string)"

subsection \<open>Python sets of names\<close>

text \<open>
  A set of names is the list of its elements in iteration order: no name twice, ordered
  by the hash of the environment (among equal hashes, by first insertion).
\<close>

definition py_set :: "('g, 'v) env \<Rightarrow> string list \<Rightarrow> string list" where
  "py_set e xs = sort_key (str_hash e) (remdups xs)"

definition set_minus :: "('g, 'v) env \<Rightarrow> string list \<Rightarrow> string list \<Rightarrow> string list" where
  "set_minus e xs ys = py_set e (filter (\<lambda>x. x \<notin> set ys) xs)"

definition set_inter :: "('g, 'v) env \<Rightarrow> string list \<Rightarrow> string list \<Rightarrow> string list" where
  "set_inter e xs ys = py_set e (filter (\<lambda>x. x \<in> set ys) xs)"

subsection \<open>Text mode and the unified diff\<close>

definition LF :: char where
  "LF = CHR 0x0A"

definition CR :: char where
  "CR = CHR 0x0D"

text \<open>Universal newlines: \<^verbatim>\<open>\r\n\<close> and a lone \<^verbatim>\<open>\r\<close> are read as \<^verbatim>\<open>\n\<close>.\<close>

fun universal_newlines :: "string \<Rightarrow> string" where
  "universal_newlines [] = []"
| "universal_newlines [c] = (if c = CR then [LF] else [c])"
| "universal_newlines (c # d # ds) =
     (if c = CR \<and> d = LF then LF # universal_newlines ds
      else if c = CR then LF # universal_newlines (d # ds)
      else c # universal_newlines (d # ds))"

text \<open>\<^verbatim>\<open>readlines()\<close>: the lines, each with its newline.\<close>

fun readlines :: "string \<Rightarrow> string list" where
  "readlines [] = []"
| "readlines (c # cs) =
     (if c = LF then [c] # readlines cs
      else (case readlines cs of [] \<Rightarrow> [[c]] | l # ls \<Rightarrow> (c # l) # ls))"

text \<open>
  \<^verbatim>\<open>difflib.unified_diff(a, b, fromfile, tofile)\<close>: nothing for equal sequences; otherwise
  the two header lines, then the hunks.
\<close>

definition unified_diff ::
  "('g, 'v) env \<Rightarrow> string list \<Rightarrow> string list \<Rightarrow> string \<Rightarrow> string \<Rightarrow> string list" where
  "unified_diff e a b fromfile tofile =
     (if a = b then []
      else [''--- '' @ fromfile @ [LF], ''+++ '' @ tofile @ [LF]] @ diff_hunks e a b)"

subsection \<open>filecmp\<close>

text \<open>\<^verbatim>\<open>filecmp._do_cmp\<close>: both files opened in binary mode and compared.\<close>

definition do_cmp :: "('g, 'v) env \<Rightarrow> path \<Rightarrow> path \<Rightarrow> bool option" where
  "do_cmp e f1 f2 =
     (case read_bytes e f1 of
        None \<Rightarrow> None
      | Some b1 \<Rightarrow>
          (case read_bytes e f2 of
             None \<Rightarrow> None
           | Some b2 \<Rightarrow> Some (b1 = b2)))"

text \<open>\<^verbatim>\<open>filecmp.cmp(f1, f2, shallow=False)\<close>; \<open>None\<close> is an \<^verbatim>\<open>OSError\<close>.\<close>

definition cmp :: "('g, 'v) env \<Rightarrow> path \<Rightarrow> path \<Rightarrow> bool option" where
  "cmp e f1 f2 =
     (case stat e f1 of
        None \<Rightarrow> None
      | Some (k1, n1) \<Rightarrow>
          (case stat e f2 of
             None \<Rightarrow> None
           | Some (k2, n2) \<Rightarrow>
               if k1 \<noteq> Regular \<or> k2 \<noteq> Regular then Some False
               else if n1 \<noteq> n2 then Some False
               else do_cmp e f1 f2))"

text \<open>\<^verbatim>\<open>filecmp.cmpfiles(a, b, common, shallow=False)\<close>: match, mismatch, errors.\<close>

fun cmpfiles ::
  "('g, 'v) env \<Rightarrow> path \<Rightarrow> path \<Rightarrow> string list \<Rightarrow> string list \<times> string list \<times> string list" where
  "cmpfiles e a b [] = ([], [], [])"
| "cmpfiles e a b (x # xs) =
     (case cmpfiles e a b xs of
        (match, mismatch, errs) \<Rightarrow>
          (case cmp e (joinpath a x) (joinpath b x) of
             Some True \<Rightarrow> (x # match, mismatch, errs)
           | Some False \<Rightarrow> (match, x # mismatch, errs)
           | None \<Rightarrow> (match, mismatch, x # errs)))"

subsection \<open>validate\_directory\<close>

text \<open>Lines 58 to 62: the names of the subdirectories other than \<^verbatim>\<open>latest\<close>.\<close>

definition list_folders :: "('g, 'v) env \<Rightarrow> path \<Rightarrow> string list" where
  "list_folders e ontology_path =
     filter (\<lambda>x. x \<noteq> ''latest'' \<and> path_is_dir e (joinpath ontology_path x))
       (glob_star e ontology_path)"

text \<open>Line 69: the first name that is no version raises.\<close>

fun parse_versions :: "('g, 'v) env \<Rightarrow> string list \<Rightarrow> error + ('v \<times> string) list" where
  "parse_versions e [] = Inr []"
| "parse_versions e (x # xs) =
     (case parse_version e x of
        None \<Rightarrow> Inl (InvalidVersion x)
      | Some v \<Rightarrow>
          (case parse_versions e xs of
             Inl err \<Rightarrow> Inl err
           | Inr vs \<Rightarrow> Inr ((v, x) # vs)))"

text \<open>Line 70: \<^verbatim>\<open>sorted(versions, key=lambda v: v[0])[-1][1]\<close>, a stable sort.\<close>

definition last_version_of :: "('v::linorder \<times> string) list \<Rightarrow> string" where
  "last_version_of versions = snd (last (sort_key fst versions))"

text \<open>Lines 109 to 116: both files read in text mode, and their diff joined.\<close>

definition diff_files :: "('g, 'v) env \<Rightarrow> path \<Rightarrow> path \<Rightarrow> error + string" where
  "diff_files e left_path right_path =
     (case read_bytes e left_path of
        None \<Rightarrow> Inl (OSError left_path)
      | Some lb \<Rightarrow>
          (case read_bytes e right_path of
             None \<Rightarrow> Inl (OSError right_path)
           | Some rb \<Rightarrow>
               (case decode e lb of
                  None \<Rightarrow> Inl (UnicodeDecodeError (as_posix left_path))
                | Some lt \<Rightarrow>
                    (case decode e rb of
                       None \<Rightarrow> Inl (UnicodeDecodeError (as_posix right_path))
                     | Some rt \<Rightarrow>
                         Inr (concat (unified_diff e
                                (readlines (universal_newlines lt))
                                (readlines (universal_newlines rt))
                                (as_posix left_path) (as_posix right_path)))))))"

text \<open>Lines 104 to 119: the loop over the mismatching names.\<close>

fun mismatch_loop ::
  "('g, 'v) env \<Rightarrow> path \<Rightarrow> path \<Rightarrow> string list \<Rightarrow> string list \<Rightarrow> log_record list
     \<Rightarrow> (error + unit) \<times> string list \<times> log_record list" where
  "mismatch_loop e left_dir right_dir [] errors lg = (Inr (), errors, lg)"
| "mismatch_loop e left_dir right_dir (fname # rest) errors lg =
     (let left_path = joinpath left_dir fname;
          right_path = joinpath right_dir fname
      in case diff_files e left_path right_path of
           Inl err \<Rightarrow> (Inl err, errors, lg)
         | Inr diffs \<Rightarrow>
             if diffs \<noteq> [] then
               mismatch_loop e left_dir right_dir rest
                 (errors @ [''ERROR: files are different: '' @ as_posix left_path
                              @ '' '' @ as_posix right_path])
                 (lg @ [LogError diffs])
             else mismatch_loop e left_dir right_dir rest errors lg)"

text \<open>Lines 96 to 123.\<close>

definition compare_common ::
  "('g, 'v) env \<Rightarrow> path \<Rightarrow> path \<Rightarrow> string list \<Rightarrow> string list \<Rightarrow> log_record list
     \<Rightarrow> (error + unit) \<times> string list \<times> log_record list" where
  "compare_common e left_dir right_dir common errors lg =
     (if common \<noteq> [] then
        (case cmpfiles e left_dir right_dir common of
           (match, mismatch, errs) \<Rightarrow>
             (case mismatch_loop e left_dir right_dir mismatch errors lg of
                (Inl err, errors1, lg1) \<Rightarrow> (Inl err, errors1, lg1)
              | (Inr u, errors1, lg1) \<Rightarrow>
                  if errs \<noteq> [] then
                    (Inr (), errors1 @ [''ERROR: couldn't check these files: ''
                        @ join '', '' errs @ '' (permission issues?)''], lg1)
                  else (Inr (), errors1, lg1)))
      else (Inr (), errors, lg))"

text \<open>Lines 83 to 94.\<close>

definition only_in_errors ::
  "('g, 'v) env \<Rightarrow> string \<Rightarrow> string list \<Rightarrow> string list \<Rightarrow> string list \<Rightarrow> string list" where
  "only_in_errors e last_version left right errors =
     (let only_latest = set_minus e left right;
          errors1 = (if only_latest \<noteq> []
                     then errors @ [''Only in latest/: '' @ join '', '' only_latest]
                     else errors);
          only_version_dir = set_minus e right left
      in if only_version_dir \<noteq> []
         then errors1 @ [''Only in '' @ last_version @ ''/: '' @ join '', '' only_version_dir]
         else errors1)"

text \<open>
  The function: the outcome, the caller's list as the call leaves it, and the log records
  of the call.
\<close>

definition validate_directory ::
  "('g, 'v::linorder) env \<Rightarrow> path \<Rightarrow> string list
     \<Rightarrow> (error + unit) \<times> string list \<times> log_record list" where
  "validate_directory e ontology_path errors =
     (let folders = list_folders e ontology_path;
          lg0 = [LogDebug ''Identified folders: %r'' folders]
      in if folders = [] then
           (Inr (), errors @ [''No versioned directories found for '' @ as_posix ontology_path],
            lg0)
         else
           (case parse_versions e folders of
              Inl err \<Rightarrow> (Inl err, errors, lg0)
            | Inr versions \<Rightarrow>
                (let last_version = last_version_of versions;
                     lg1 = lg0 @ [LogDebug ''Latest version: %r'' [last_version]];
                     left_dir = joinpath ontology_path ''latest'';
                     right_dir = joinpath ontology_path last_version
                 in if \<not> path_exists e left_dir then
                      (Inr (), errors @ [''ERROR: can't find '' @ as_posix left_dir], lg1)
                    else if \<not> path_exists e right_dir then
                      (Inl AssertionError, errors, lg1)
                    else
                      (let left = glob_star e left_dir;
                           right = glob_star e right_dir;
                           errors1 = only_in_errors e last_version left right errors
                       in compare_common e left_dir right_dir (set_inter e right left)
                            errors1 lg1))))"

text \<open>The parts of the result of a call.\<close>

definition outcome_of :: "'r \<times> 's \<times> log_record list \<Rightarrow> 'r" where
  "outcome_of r = fst r"

definition errors_of :: "'r \<times> string list \<times> log_record list \<Rightarrow> string list" where
  "errors_of r = fst (snd r)"

definition log_of :: "'r \<times> 's \<times> log_record list \<Rightarrow> log_record list" where
  "log_of r = snd (snd r)"

subsection \<open>get\_shacl\_graph and validate\_shacl\<close>

definition MAX_DEPTH :: nat where
  "MAX_DEPTH = 5"

text \<open>The exception that leaves \<open>get_shacl_graph\<close> when the parser raises: the parser's own.\<close>

fun parser_raises :: "string \<Rightarrow> parser_error \<Rightarrow> error" where
  "parser_raises absolute_path (ParserValueError m) = ValueError m"
| "parser_raises absolute_path ParserUnicodeDecodeError = UnicodeDecodeError absolute_path"
| "parser_raises absolute_path (ParserOtherError m) = ParseException m"

text \<open>Lines 20 to 26, the function under the decorator: the outcome and its log records.\<close>

definition get_shacl_graph :: "('g, 'v) env \<Rightarrow> string \<Rightarrow> (error + 'g) \<times> log_record list" where
  "get_shacl_graph e absolute_path =
     (if \<not> str_is_absolute absolute_path then
        (Inl (ValueError (absolute_path @ '' is not an absolute path'')), [])
      else
        (case parse_turtle e absolute_path of
           Inl raised \<Rightarrow> Inl (parser_raises absolute_path raised)
         | Inr shacl_graph \<Rightarrow> Inr shacl_graph,
         [LogInfo (''Loading SHACL graph from '' @ absolute_path)]))"

text \<open>
  \<^verbatim>\<open>@lru_cache(maxsize=100)\<close>: the cache lists its entries from the most recently used; a
  hit moves the entry to the front, a miss calls the function and stores what it
  returns, dropping the least recently used entry of a full cache; a call that raises
  stores nothing.
\<close>

type_synonym 'g cache = "(string \<times> 'g) list"

definition lru_get_shacl_graph ::
  "('g, 'v) env \<Rightarrow> 'g cache \<Rightarrow> string \<Rightarrow> (error + 'g) \<times> 'g cache \<times> log_record list" where
  "lru_get_shacl_graph e cache absolute_path =
     (case map_of cache absolute_path of
        Some g \<Rightarrow>
          (Inr g, (absolute_path, g) # filter (\<lambda>kv. fst kv \<noteq> absolute_path) cache, [])
      | None \<Rightarrow>
          (case get_shacl_graph e absolute_path of
             (Inl err, lg) \<Rightarrow> (Inl err, cache, lg)
           | (Inr g, lg) \<Rightarrow> (Inr g, take 100 ((absolute_path, g) # cache), lg)))"

text \<open>\<^verbatim>\<open>p.absolute()\<close>: a relative path is put under the working directory.\<close>

definition absolute :: "('g, 'v) env \<Rightarrow> path \<Rightarrow> path" where
  "absolute e p = (if is_absolute p then p else Path True (cwd e @ parts p))"

text \<open>
  Lines 34 to 43, the walk: the rules file found, looking at no more than \<open>n\<close>
  directories from \<open>rule_dir\<close> upwards and at none above \<open>basedir\<close>.
\<close>

fun find_rules :: "('g, 'v) env \<Rightarrow> nat \<Rightarrow> path \<Rightarrow> path option" where
  "find_rules e 0 rule_dir = None"
| "find_rules e (Suc n) rule_dir =
     (let rule_file_candidate = joinpath rule_dir ''rules.shacl''
      in if path_exists e rule_file_candidate then Some rule_file_candidate
         else if rule_dir = basedir e then None
         else find_rules e n (parent rule_dir))"

text \<open>The directories the walk looks at when it finds no rules file.\<close>

fun examined_dirs :: "('g, 'v) env \<Rightarrow> nat \<Rightarrow> path \<Rightarrow> path list" where
  "examined_dirs e 0 rule_dir = []"
| "examined_dirs e (Suc n) rule_dir =
     rule_dir # (if rule_dir = basedir e then [] else examined_dirs e n (parent rule_dir))"

definition str_of_bool :: "bool \<Rightarrow> string" where
  "str_of_bool b = (if b then ''True'' else ''False'')"

definition str_of_option :: "string option \<Rightarrow> string" where
  "str_of_option x = (case x of None \<Rightarrow> ''None'' | Some s \<Rightarrow> s)"

text \<open>
  Lines 44 to 54. \<^verbatim>\<open>exit(1)\<close> raises \<^verbatim>\<open>SystemExit\<close>, which \<^verbatim>\<open>except Exception\<close> does not
  catch; an exception of the engine is logged and raised again.
\<close>

definition run_validation ::
  "('g, 'v) env \<Rightarrow> path \<Rightarrow> 'g option \<Rightarrow> string option \<Rightarrow> 'g cache \<Rightarrow> log_record list
     \<Rightarrow> (error + unit) \<times> 'g cache \<times> log_record list" where
  "run_validation e file shacl_graph rule_file_path cache lg =
     (case shacl_validate e (as_posix file) shacl_graph True of
        Inl m \<Rightarrow>
          (Inl (ValidationException m), cache,
           lg @ [LogError (''Error validating '' @ as_posix file @ '': ''
                   @ str_of_option rule_file_path @ '' '' @ m)])
      | Inr (is_valid, graph, report_text) \<Rightarrow>
          (if \<not> is_valid then Inl (SystemExit 1) else Inr (), cache,
           lg @ [LogInfo (''Validation result: '' @ str_of_bool is_valid @ '', ''
                   @ str_of_option rule_file_path @ '', '' @ report_text)]))"

text \<open>
  The function. Its parameter is annotated \<^verbatim>\<open>str\<close>, and the body calls
  \<^verbatim>\<open>file.as_posix()\<close>: it is called with a \<^verbatim>\<open>Path\<close>, which is what the model takes.
\<close>

definition validate_shacl ::
  "('g, 'v) env \<Rightarrow> 'g cache \<Rightarrow> path \<Rightarrow> (error + unit) \<times> 'g cache \<times> log_record list" where
  "validate_shacl e cache file =
     (let lg0 = [LogInfo (''Validating '' @ as_posix file)]
      in case find_rules e MAX_DEPTH (parent file) of
           None \<Rightarrow> run_validation e file None None cache lg0
         | Some rule_file_candidate \<Rightarrow>
             (let rule_file_path = as_posix (absolute e rule_file_candidate)
              in case lru_get_shacl_graph e cache rule_file_path of
                   (Inl err, cache1, lg) \<Rightarrow> (Inl err, cache1, lg0 @ lg)
                 | (Inr shacl_graph, cache1, lg) \<Rightarrow>
                     run_validation e file (Some shacl_graph) (Some rule_file_path) cache1
                       (lg0 @ lg @ [LogInfo (''Found shacl file: '' @ rule_file_path)])))"

text \<open>
  What the engine answers in a call of \<open>validate_shacl\<close>: the call of lines 46 to 48
  with the graph the walk has found, and \<open>None\<close> when loading the graph raises, so that
  the engine is not reached.
\<close>

definition engine_result ::
  "('g, 'v) env \<Rightarrow> 'g cache \<Rightarrow> path \<Rightarrow> (string + (bool \<times> 'g \<times> string)) option" where
  "engine_result e cache file =
     (case find_rules e MAX_DEPTH (parent file) of
        None \<Rightarrow> Some (shacl_validate e (as_posix file) None True)
      | Some rule_file_candidate \<Rightarrow>
          (case fst (lru_get_shacl_graph e cache (as_posix (absolute e rule_file_candidate))) of
             Inl err \<Rightarrow> None
           | Inr shacl_graph \<Rightarrow>
               Some (shacl_validate e (as_posix file) (Some shacl_graph) True)))"

subsection \<open>Versions in the example environments\<close>

text \<open>
  \<^verbatim>\<open>packaging.version\<close> is a library, and the validator takes it from the environment: no
  property below assumes what it answers. The example environments need a parser of
  their own, and \<open>release_version\<close> is that parser: for a name that is a release segment
  only (numbers separated by dots, as in \<^verbatim>\<open>10.0\<close>) it gives the tuple of the numbers
  without its trailing zeros, which is how the library orders such names. It is not the
  library: the library accepts more forms (such as \<^verbatim>\<open>v2.0\<close> and \<^verbatim>\<open>1.0rc1\<close>), and the
  examples use release segments only.
\<close>

definition digit_of :: "char \<Rightarrow> nat option" where
  "digit_of c =
     (let n = (of_char c :: nat) in if 48 \<le> n \<and> n \<le> 57 then Some (n - 48) else None)"

fun number_of :: "nat \<Rightarrow> string \<Rightarrow> nat option" where
  "number_of acc [] = Some acc"
| "number_of acc (c # cs) =
     (case digit_of c of None \<Rightarrow> None | Some d \<Rightarrow> number_of (10 * acc + d) cs)"

definition parse_number :: "string \<Rightarrow> nat option" where
  "parse_number s = (if s = [] then None else number_of 0 s)"

fun split_on :: "char \<Rightarrow> string \<Rightarrow> string list" where
  "split_on sep [] = [[]]"
| "split_on sep (c # cs) =
     (if c = sep then [] # split_on sep cs
      else (case split_on sep cs of [] \<Rightarrow> [[c]] | l # ls \<Rightarrow> (c # l) # ls))"

definition release_version :: "string \<Rightarrow> nat list option" where
  "release_version s =
     map_option (\<lambda>release. rev (dropWhile (\<lambda>n. n = 0) (rev release)))
       (those (map parse_number (split_on CHR ''.'' s)))"

subsection \<open>A file system as a tree\<close>

text \<open>
  An environment whose answers all come from one tree of files and directories: the
  file system when nothing changes it during the call.
\<close>

datatype node = FileNode string | DirNode "(string \<times> node) list"

fun lookup :: "node \<Rightarrow> string list \<Rightarrow> node option" where
  "lookup n [] = Some n"
| "lookup (FileNode c) (x # xs) = None"
| "lookup (DirNode entries) (x # xs) =
     (case map_of entries x of None \<Rightarrow> None | Some n \<Rightarrow> lookup n xs)"

definition node_at :: "node \<Rightarrow> path \<Rightarrow> node option" where
  "node_at root p = lookup root (parts p)"

definition plain_hunks :: "string list \<Rightarrow> string list \<Rightarrow> string list" where
  "plain_hunks a b = map (\<lambda>l. CHR ''-'' # l) a @ map (\<lambda>l. CHR ''+'' # l) b"

text \<open>
  The tree is the root directory, every path is read from the root, text is decoded
  byte for byte, a set is iterated in the order of insertion, a graph is the name of its
  file, and the engine finds every file valid.
\<close>

definition tree_env :: "node \<Rightarrow> (string, nat list) env" where
  "tree_env root =
     \<lparr> basedir = Path True [''repo'', ''dati_playground''],
       cwd = [],
       path_exists = (\<lambda>p. node_at root p \<noteq> None),
       path_is_dir = (\<lambda>p. case node_at root p of Some (DirNode es) \<Rightarrow> True | _ \<Rightarrow> False),
       glob_star = (\<lambda>p. case node_at root p of Some (DirNode es) \<Rightarrow> map fst es | _ \<Rightarrow> []),
       stat = (\<lambda>p. case node_at root p of
                      None \<Rightarrow> None
                    | Some (FileNode c) \<Rightarrow> Some (Regular, length c)
                    | Some (DirNode es) \<Rightarrow> Some (Directory, 0)),
       read_bytes = (\<lambda>p. case node_at root p of Some (FileNode c) \<Rightarrow> Some c | _ \<Rightarrow> None),
       decode = Some,
       str_hash = (\<lambda>s. 0),
       parse_version = release_version,
       diff_hunks = plain_hunks,
       parse_turtle = Inr,
       shacl_validate = (\<lambda>file g advanced. Inr (True, [], ''Conforms'')) \<rparr>"



subsection \<open>Byte-identical files\<close>

text \<open>
  Two paths name byte-identical files: both are regular files of one size, both can be
  read, and their contents are equal.
\<close>

definition byte_identical :: "('g, 'v) env \<Rightarrow> path \<Rightarrow> path \<Rightarrow> bool" where
  "byte_identical e f1 f2 =
     (map_option fst (stat e f1) = Some Regular \<and>
      map_option fst (stat e f2) = Some Regular \<and>
      map_option snd (stat e f1) = map_option snd (stat e f2) \<and>
      read_bytes e f1 \<noteq> None \<and>
      read_bytes e f1 = read_bytes e f2)"

subsection \<open>Trees used as examples\<close>

definition onto :: path where
  "onto = Path True [''onto'']"

text \<open>An ontology with a \<^verbatim>\<open>latest\<close> directory and no version.\<close>

definition only_latest_tree :: node where
  "only_latest_tree =
     DirNode [(''onto'', DirNode [(''latest'', DirNode [(''a.ttl'', FileNode ''x'')]),
                                  (''README'', FileNode ''doc'')])]"

text \<open>An ontology with three versions; \<^verbatim>\<open>latest\<close> has the files of \<^verbatim>\<open>10.0\<close>.\<close>

definition versions_tree :: node where
  "versions_tree =
     DirNode [(''onto'', DirNode
       [(''1.0'', DirNode [(''a.ttl'', FileNode ''old'')]),
        (''10.0'', DirNode [(''a.ttl'', FileNode ''new''), (''b.ttl'', FileNode ''more'')]),
        (''2.3'', DirNode [(''a.ttl'', FileNode ''mid'')]),
        (''latest'', DirNode [(''b.ttl'', FileNode ''more''), (''a.ttl'', FileNode ''new'')])])]"

text \<open>An ontology with one version and no \<^verbatim>\<open>latest\<close> directory.\<close>

definition no_latest_tree :: node where
  "no_latest_tree =
     DirNode [(''onto'', DirNode [(''1.0'', DirNode [(''a.ttl'', FileNode ''x'')])])]"

text \<open>
  The tree of three versions when \<^verbatim>\<open>10.0\<close> is removed after the directory was listed:
  the listing has it, \<^verbatim>\<open>exists\<close> does not.
\<close>

definition vanished_env :: "(string, nat list) env" where
  "vanished_env =
     (tree_env versions_tree)
       \<lparr> path_exists := (\<lambda>p. p \<noteq> Path True [''onto'', ''10.0'']
                                \<and> path_exists (tree_env versions_tree) p) \<rparr>"

text \<open>
  An ontology whose \<^verbatim>\<open>latest\<close> has drifted from its only version: one file on each side
  only, and one file whose content differs.
\<close>

definition drift_tree :: node where
  "drift_tree =
     DirNode [(''onto'', DirNode
       [(''latest'', DirNode [(''a.ttl'', FileNode (''x'' @ [LF])), (''extra.ttl'', FileNode ''e'')]),
        (''1.0'', DirNode [(''a.ttl'', FileNode (''y'' @ [LF])), (''missing.ttl'', FileNode ''m'')])])]"

text \<open>
  An ontology whose only file ends its line with \<^verbatim>\<open>\n\<close> in \<^verbatim>\<open>latest\<close> and with \<^verbatim>\<open>\r\n\<close> in
  the version directory.
\<close>

definition crlf_tree :: node where
  "crlf_tree =
     DirNode [(''onto'', DirNode
       [(''latest'', DirNode [(''a.ttl'', FileNode (''x'' @ [LF]))]),
        (''1.0'', DirNode [(''a.ttl'', FileNode (''x'' @ [CR, LF]))])])]"

text \<open>
  A repository: the data file \<^verbatim>\<open>x.ttl\<close> has a rules file one directory above its own,
  the data file \<^verbatim>\<open>y.ttl\<close> has none up to the root.
\<close>

definition shacl_tree :: node where
  "shacl_tree =
     DirNode [(''repo'', DirNode
       [(''dati_playground'', DirNode []),
        (''assets'', DirNode
           [(''rules.shacl'', FileNode ''shapes''),
            (''vocab'', DirNode [(''x.ttl'', FileNode ''data'')])]),
        (''plain'', DirNode [(''y.ttl'', FileNode ''data'')])])]"

text \<open>The same repository with an engine that finds every file invalid.\<close>

definition rejecting_env :: "(string, nat list) env" where
  "rejecting_env =
     (tree_env shacl_tree)
       \<lparr> shacl_validate := (\<lambda>file g advanced. Inr (False, [], ''Violation'')) \<rparr>"


section \<open>Properties\<close>

subsection \<open>The environment of a tree\<close>

lemma tree_env_simps:
  "basedir (tree_env root) = Path True [''repo'', ''dati_playground'']"
  "cwd (tree_env root) = []"
  "path_exists (tree_env root) p = (node_at root p \<noteq> None)"
  "path_is_dir (tree_env root) p =
     (case node_at root p of Some (DirNode es) \<Rightarrow> True | _ \<Rightarrow> False)"
  "glob_star (tree_env root) p =
     (case node_at root p of Some (DirNode es) \<Rightarrow> map fst es | _ \<Rightarrow> [])"
  "stat (tree_env root) p =
     (case node_at root p of
        None \<Rightarrow> None
      | Some (FileNode c) \<Rightarrow> Some (Regular, length c)
      | Some (DirNode es) \<Rightarrow> Some (Directory, 0))"
  "read_bytes (tree_env root) p =
     (case node_at root p of Some (FileNode c) \<Rightarrow> Some c | _ \<Rightarrow> None)"
  "decode (tree_env root) = Some"
  "str_hash (tree_env root) = (\<lambda>s. 0)"
  "parse_version (tree_env root) = release_version"
  "diff_hunks (tree_env root) = plain_hunks"
  "parse_turtle (tree_env root) = Inr"
  "shacl_validate (tree_env root) = (\<lambda>file g advanced. Inr (True, [], ''Conforms''))"
  by (simp_all add: tree_env_def)

subsection \<open>The error list only grows\<close>

lemma mismatch_loop_appends:
  "\<exists>ys. fst (snd (mismatch_loop e l r names errors lg)) = errors @ ys"
proof (induction names arbitrary: errors lg)
  case Nil
  show ?case by simp
next
  case (Cons fname rest)
  show ?case
  proof (cases "diff_files e (joinpath l fname) (joinpath r fname)")
    case (Inl err)
    then show ?thesis by (simp add: Let_def)
  next
    case (Inr diffs)
    show ?thesis
    proof (cases "diffs = []")
      case True
      with Inr Cons.IH [of errors lg] show ?thesis by (simp add: Let_def)
    next
      case False
      let ?m = "''ERROR: files are different: '' @ as_posix (joinpath l fname)
                  @ '' '' @ as_posix (joinpath r fname)"
      from Cons.IH [of "errors @ [?m]" "lg @ [LogError diffs]"]
      obtain ys where "fst (snd (mismatch_loop e l r rest (errors @ [?m]) (lg @ [LogError diffs])))
          = (errors @ [?m]) @ ys" by blast
      with Inr False show ?thesis by (simp add: Let_def)
    qed
  qed
qed

lemma compare_common_appends:
  "\<exists>ys. fst (snd (compare_common e l r common errors lg)) = errors @ ys"
proof -
  obtain match mismatch errs where c: "cmpfiles e l r common = (match, mismatch, errs)"
    by (cases "cmpfiles e l r common") auto
  obtain out errors1 lg1 where m: "mismatch_loop e l r mismatch errors lg = (out, errors1, lg1)"
    by (cases "mismatch_loop e l r mismatch errors lg") auto
  from mismatch_loop_appends [of e l r mismatch errors lg] m
  obtain ys where ys: "errors1 = errors @ ys" by auto
  show ?thesis
    using c m ys by (cases out) (auto simp: compare_common_def)
qed

lemma only_in_errors_appends:
  "\<exists>ys. only_in_errors e v left right errors = errors @ ys"
  by (simp add: only_in_errors_def Let_def)

text \<open>
  Claim C9. Whatever the environment, the path and the list the caller passes, and
  whether the call returns early, returns at its end or raises, the list after the call
  is the list before it followed by the entries of the call: nothing is removed,
  changed or reordered.
\<close>

theorem validate_directory_only_appends:
  "\<exists>ys. errors_of (validate_directory e ontology_path errors) = errors @ ys"
proof -
  have step: "\<exists>ys. fst (snd (compare_common e l r common
                  (only_in_errors e v left right errors) lg)) = errors @ ys"
    for l r common v left right lg
  proof -
    obtain ys where "only_in_errors e v left right errors = errors @ ys"
      using only_in_errors_appends by blast
    moreover obtain zs where "fst (snd (compare_common e l r common
                  (only_in_errors e v left right errors) lg))
         = only_in_errors e v left right errors @ zs"
      using compare_common_appends by blast
    ultimately show ?thesis by simp
  qed
  show ?thesis
    unfolding errors_of_def validate_directory_def Let_def
    by (auto split: sum.splits simp: step)
qed

subsection \<open>No versioned directory\<close>

text \<open>
  Claim C8. When the subdirectories of the ontology path other than \<^verbatim>\<open>latest\<close> are none,
  the call returns normally, the list has exactly one more entry, which says that no
  versioned directory was found for the path, and the only log record is the one
  written before the check: nothing else of the function runs.
\<close>

theorem no_versioned_directories:
  "list_folders e ontology_path = [] \<Longrightarrow>
   validate_directory e ontology_path errors =
     (Inr (), errors @ [''No versioned directories found for '' @ as_posix ontology_path],
      [LogDebug ''Identified folders: %r'' []])"
  by (simp add: validate_directory_def)

theorem no_versioned_directories_witness:
  "list_folders (tree_env only_latest_tree) onto = [] \<and>
   validate_directory (tree_env only_latest_tree) onto [''earlier''] =
     (Inr (), [''earlier'', ''No versioned directories found for /onto''],
      [LogDebug ''Identified folders: %r'' []])"
proof -
  have h: "list_folders (tree_env only_latest_tree) onto = []"
    by (simp add: list_folders_def tree_env_simps node_at_def onto_def only_latest_tree_def
        joinpath_def)
  from no_versioned_directories [OF h, of "[''earlier'']"] h show ?thesis
    by (simp add: as_posix_def onto_def)
qed

subsection \<open>The log only grows\<close>

lemma mismatch_loop_log:
  "\<exists>ys. snd (snd (mismatch_loop e l r names errors lg)) = lg @ ys"
proof (induction names arbitrary: errors lg)
  case Nil
  show ?case by simp
next
  case (Cons fname rest)
  show ?case
  proof (cases "diff_files e (joinpath l fname) (joinpath r fname)")
    case (Inl err)
    then show ?thesis by (simp add: Let_def)
  next
    case (Inr diffs)
    show ?thesis
    proof (cases "diffs = []")
      case True
      with Inr Cons.IH [of errors lg] show ?thesis by (simp add: Let_def)
    next
      case False
      let ?m = "''ERROR: files are different: '' @ as_posix (joinpath l fname)
                  @ '' '' @ as_posix (joinpath r fname)"
      from Cons.IH [of "errors @ [?m]" "lg @ [LogError diffs]"]
      obtain ys where "snd (snd (mismatch_loop e l r rest (errors @ [?m]) (lg @ [LogError diffs])))
          = (lg @ [LogError diffs]) @ ys" by blast
      with Inr False show ?thesis by (simp add: Let_def)
    qed
  qed
qed

lemma compare_common_log:
  "\<exists>ys. snd (snd (compare_common e l r common errors lg)) = lg @ ys"
proof -
  obtain match mismatch errs where c: "cmpfiles e l r common = (match, mismatch, errs)"
    by (cases "cmpfiles e l r common") auto
  obtain out errors1 lg1 where m: "mismatch_loop e l r mismatch errors lg = (out, errors1, lg1)"
    by (cases "mismatch_loop e l r mismatch errors lg") auto
  from mismatch_loop_log [of e l r mismatch errors lg] m
  obtain ys where ys: "lg1 = lg @ ys" by auto
  show ?thesis
    using c m ys by (cases out) (auto simp: compare_common_def)
qed

lemma sorted_le_last:
  "sorted ys \<Longrightarrow> y \<in> set ys \<Longrightarrow> y \<le> last ys"
  by (induction ys) auto

lemma last_sort_key_max:
  assumes "xs \<noteq> []"
  shows "last (sort_key f xs) \<in> set xs"
    and "\<forall>x\<in>set xs. f x \<le> f (last (sort_key f xs))"
proof -
  let ?ys = "sort_key f xs"
  have ne: "?ys \<noteq> []" using assms by (metis length_sort length_0_conv)
  then have "last ?ys \<in> set ?ys" by (rule last_in_set)
  then show "last ?ys \<in> set xs" by simp
  have s: "sorted (map f ?ys)" by simp
  show "\<forall>x\<in>set xs. f x \<le> f (last ?ys)"
  proof
    fix x assume "x \<in> set xs"
    then have "f x \<in> set (map f ?ys)" by simp
    with s have "f x \<le> last (map f ?ys)" by (rule sorted_le_last)
    with ne show "f x \<le> f (last ?ys)" by (simp add: last_map)
  qed
qed

lemma release_version_examples:
  "release_version ''1.0'' = Some [1]"
  "release_version ''2.3'' = Some [2, 3]"
  "release_version ''10.0'' = Some [10]"
  by (simp_all add: release_version_def parse_number_def digit_of_def)



lemma latest_version_logged:
  assumes ne: "list_folders e p \<noteq> []" and pvs: "parse_versions e (list_folders e p) = Inr vs"
  shows "LogDebug ''Latest version: %r'' [last_version_of vs]
           \<in> set (log_of (validate_directory e p errors))"
proof -
  let ?lg1 = "[LogDebug ''Identified folders: %r'' (list_folders e p),
               LogDebug ''Latest version: %r'' [last_version_of vs]]"
  let ?l = "joinpath p ''latest''"
  let ?r = "joinpath p (last_version_of vs)"
  consider (a) "\<not> path_exists e ?l" | (b) "path_exists e ?l" "\<not> path_exists e ?r"
    | (c) "path_exists e ?l" "path_exists e ?r" by blast
  then show ?thesis
  proof cases
    case a
    with ne pvs show ?thesis by (simp add: log_of_def validate_directory_def Let_def)
  next
    case b
    with ne pvs show ?thesis by (simp add: log_of_def validate_directory_def Let_def)
  next
    case c
    obtain ys where "snd (snd (compare_common e ?l ?r
        (set_inter e (glob_star e ?r) (glob_star e ?l))
        (only_in_errors e (last_version_of vs) (glob_star e ?l) (glob_star e ?r) errors) ?lg1))
        = ?lg1 @ ys"
      using compare_common_log by blast
    with c ne pvs show ?thesis by (simp add: log_of_def validate_directory_def Let_def)
  qed
qed

subsection \<open>A missing latest directory, a missing version directory\<close>

lemma versions_tree_folders:
  "list_folders (tree_env versions_tree) onto = [''1.0'', ''10.0'', ''2.3'']"
  by (simp add: list_folders_def tree_env_simps node_at_def onto_def versions_tree_def
        joinpath_def)

lemma versions_tree_parse:
  "parse_versions (tree_env versions_tree) [''1.0'', ''10.0'', ''2.3'']
     = Inr [([1], ''1.0''), ([10], ''10.0''), ([2, 3], ''2.3'')]"
  by (simp add: tree_env_simps release_version_examples)

lemma vanished_env_simps:
  "list_folders vanished_env p = list_folders (tree_env versions_tree) p"
  "parse_versions vanished_env xs = parse_versions (tree_env versions_tree) xs"
  "path_exists vanished_env p
     = (p \<noteq> Path True [''onto'', ''10.0''] \<and> path_exists (tree_env versions_tree) p)"
proof -
  show "list_folders vanished_env p = list_folders (tree_env versions_tree) p"
    by (simp add: list_folders_def vanished_env_def)
  show "parse_versions vanished_env xs = parse_versions (tree_env versions_tree) xs"
    by (induction xs) (simp_all add: vanished_env_def split: option.split)
  show "path_exists vanished_env p
     = (p \<noteq> Path True [''onto'', ''10.0''] \<and> path_exists (tree_env versions_tree) p)"
    by (simp add: vanished_env_def)
qed

text \<open>
  Claim C2. Let there be subdirectories other than \<^verbatim>\<open>latest\<close>, all of them named by
  versions. When \<^verbatim>\<open>latest\<close> does not exist, the call returns normally with exactly one
  entry appended, and nothing is compared (the log has the two debug records only).
  When \<^verbatim>\<open>latest\<close> exists and the directory of the selected version does not, the call
  raises \<^verbatim>\<open>AssertionError\<close> and appends nothing.
\<close>

theorem latest_missing_and_version_missing:
  assumes ne: "list_folders e p \<noteq> []"
    and pvs: "parse_versions e (list_folders e p) = Inr vs"
  shows "(\<not> path_exists e (joinpath p ''latest'') \<longrightarrow>
            validate_directory e p errors =
              (Inr (), errors @ [''ERROR: can't find '' @ as_posix (joinpath p ''latest'')],
               [LogDebug ''Identified folders: %r'' (list_folders e p),
                LogDebug ''Latest version: %r'' [last_version_of vs]]))
       \<and> (path_exists e (joinpath p ''latest'')
            \<and> \<not> path_exists e (joinpath p (last_version_of vs)) \<longrightarrow>
            validate_directory e p errors =
              (Inl AssertionError, errors,
               [LogDebug ''Identified folders: %r'' (list_folders e p),
                LogDebug ''Latest version: %r'' [last_version_of vs]]))"
  using ne pvs by (simp add: validate_directory_def Let_def)

theorem latest_missing_and_version_missing_witness:
  "list_folders (tree_env no_latest_tree) onto \<noteq> [] \<and>
   parse_versions (tree_env no_latest_tree) (list_folders (tree_env no_latest_tree) onto)
     = Inr [([1], ''1.0'')] \<and>
   \<not> path_exists (tree_env no_latest_tree) (joinpath onto ''latest'') \<and>
   validate_directory (tree_env no_latest_tree) onto [] =
     (Inr (), [''ERROR: can't find /onto/latest''],
      [LogDebug ''Identified folders: %r'' [''1.0''], LogDebug ''Latest version: %r'' [''1.0'']]) \<and>
   list_folders vanished_env onto \<noteq> [] \<and>
   parse_versions vanished_env (list_folders vanished_env onto)
     = Inr [([1], ''1.0''), ([10], ''10.0''), ([2, 3], ''2.3'')] \<and>
   path_exists vanished_env (joinpath onto ''latest'') \<and>
   \<not> path_exists vanished_env (joinpath onto ''10.0'') \<and>
   validate_directory vanished_env onto [] =
     (Inl AssertionError, [],
      [LogDebug ''Identified folders: %r'' [''1.0'', ''10.0'', ''2.3''],
       LogDebug ''Latest version: %r'' [''10.0'']])"
proof -
  have f1: "list_folders (tree_env no_latest_tree) onto = [''1.0'']"
    by (simp add: list_folders_def tree_env_simps node_at_def onto_def no_latest_tree_def
        joinpath_def)
  have p1: "parse_versions (tree_env no_latest_tree) (list_folders (tree_env no_latest_tree) onto)
     = Inr [([1], ''1.0'')]"
    unfolding f1 by (simp add: tree_env_simps release_version_examples)
  have e1: "\<not> path_exists (tree_env no_latest_tree) (joinpath onto ''latest'')"
    by (simp add: tree_env_simps node_at_def onto_def no_latest_tree_def joinpath_def)
  have n1: "list_folders (tree_env no_latest_tree) onto \<noteq> []" unfolding f1 by simp
  have f2: "list_folders vanished_env onto = [''1.0'', ''10.0'', ''2.3'']"
    by (simp add: vanished_env_simps versions_tree_folders)
  have n2: "list_folders vanished_env onto \<noteq> []" unfolding f2 by simp
  have p2: "parse_versions vanished_env (list_folders vanished_env onto)
     = Inr [([1], ''1.0''), ([10], ''10.0''), ([2, 3], ''2.3'')]"
    unfolding f2 by (simp only: vanished_env_simps versions_tree_parse)
  have e2: "path_exists vanished_env (joinpath onto ''latest'')"
    by (simp add: vanished_env_simps tree_env_simps node_at_def onto_def versions_tree_def
        joinpath_def)
  have e3: "\<not> path_exists vanished_env (joinpath onto ''10.0'')"
    by (simp add: vanished_env_simps onto_def joinpath_def)
  have a1: "as_posix (joinpath onto ''latest'') = ''/onto/latest''"
    by (simp add: as_posix_def onto_def joinpath_def)
  from latest_missing_and_version_missing [OF n1 p1, of "[]"] e1
  have r1: "validate_directory (tree_env no_latest_tree) onto [] =
     (Inr (), [''ERROR: can't find /onto/latest''],
      [LogDebug ''Identified folders: %r'' [''1.0''], LogDebug ''Latest version: %r'' [''1.0'']])"
    by (simp add: f1 a1 last_version_of_def)
  from latest_missing_and_version_missing [OF n2 p2, of "[]"] e2 e3
  have r2: "validate_directory vanished_env onto [] =
     (Inl AssertionError, [],
      [LogDebug ''Identified folders: %r'' [''1.0'', ''10.0'', ''2.3''],
       LogDebug ''Latest version: %r'' [''10.0'']])"
    by (simp add: f2 last_version_of_def)
  from n1 p1 e1 r1 n2 p2 e2 e3 r2 show ?thesis by (intro conjI)
qed

subsection \<open>Names in one directory only\<close>

lemma drift_tree_run:
  "validate_directory (tree_env drift_tree) onto [] =
    (Inr (),
  [''Only in latest/: extra.ttl'', ''Only in 1.0/: missing.ttl'',
   ''ERROR: files are different: /onto/latest/a.ttl /onto/1.0/a.ttl''],
  [LogDebug ''Identified folders: %r'' [''1.0''],
   LogDebug ''Latest version: %r'' [''1.0''],
   LogError ''--- /onto/latest/a.ttl\<newline>+++ /onto/1.0/a.ttl\<newline>-x\<newline>+y\<newline>''])"
  by code_simp

lemma set_py_set: "set (py_set e xs) = set xs"
  by (simp add: py_set_def)

lemma distinct_py_set: "distinct (py_set e xs)"
  by (simp add: py_set_def)

lemma set_set_minus: "set (set_minus e xs ys) = set xs - set ys"
  by (auto simp: set_minus_def set_py_set)

lemma distinct_set_minus: "distinct (set_minus e xs ys)"
  by (simp add: set_minus_def distinct_py_set)

lemma set_set_inter: "set (set_inter e xs ys) = set xs \<inter> set ys"
  by (auto simp: set_inter_def set_py_set)

lemma only_in_errors_latest:
  "set left - set right \<noteq> {} \<Longrightarrow>
   ''Only in latest/: '' @ join '', '' (set_minus e left right)
     \<in> set (only_in_errors e v left right errors)"
proof -
  assume "set left - set right \<noteq> {}"
  then have "set (set_minus e left right) \<noteq> {}" by (simp add: set_set_minus)
  then have "set_minus e left right \<noteq> []" by simp
  then show ?thesis by (simp add: only_in_errors_def Let_def)
qed

lemma only_in_errors_version:
  "set right - set left \<noteq> {} \<Longrightarrow>
   ''Only in '' @ v @ ''/: '' @ join '', '' (set_minus e right left)
     \<in> set (only_in_errors e v left right errors)"
proof -
  assume "set right - set left \<noteq> {}"
  then have "set (set_minus e right left) \<noteq> {}" by (simp add: set_set_minus)
  then have "set_minus e right left \<noteq> []" by simp
  then show ?thesis by (simp add: only_in_errors_def Let_def)
qed

text \<open>Past the two checks, the call is the comparison of the two directories.\<close>

lemma validate_directory_compares:
  assumes "list_folders e p \<noteq> []"
    and "parse_versions e (list_folders e p) = Inr vs"
    and "path_exists e (joinpath p ''latest'')"
    and "path_exists e (joinpath p (last_version_of vs))"
  shows "validate_directory e p errors =
     compare_common e (joinpath p ''latest'') (joinpath p (last_version_of vs))
       (set_inter e (glob_star e (joinpath p (last_version_of vs)))
          (glob_star e (joinpath p ''latest'')))
       (only_in_errors e (last_version_of vs) (glob_star e (joinpath p ''latest''))
          (glob_star e (joinpath p (last_version_of vs))) errors)
       [LogDebug ''Identified folders: %r'' (list_folders e p),
        LogDebug ''Latest version: %r'' [last_version_of vs]]"
  using assms by (simp add: validate_directory_def Let_def)

text \<open>
  Claim C7. Let the call reach the comparison (there are version directories, their
  names are versions, \<^verbatim>\<open>latest\<close> and the selected directory exist). When some names are
  in \<^verbatim>\<open>latest\<close> only, the list after the call has an entry that starts with
  \<^verbatim>\<open>Only in latest/: \<close> and goes on with exactly those names, each once, separated by
  commas. When some names are in the version directory only, the list has an entry that
  names the version directory and exactly those names.
\<close>

theorem only_in_one_directory:
  assumes ne: "list_folders e p \<noteq> []"
    and pvs: "parse_versions e (list_folders e p) = Inr vs"
    and l: "path_exists e (joinpath p ''latest'')"
    and r: "path_exists e (joinpath p (last_version_of vs))"
    and left: "left = glob_star e (joinpath p ''latest'')"
    and right: "right = glob_star e (joinpath p (last_version_of vs))"
  shows "(set left - set right \<noteq> {} \<longrightarrow>
            (\<exists>names. set names = set left - set right \<and> distinct names \<and>
               ''Only in latest/: '' @ join '', '' names
                 \<in> set (errors_of (validate_directory e p errors))))
       \<and> (set right - set left \<noteq> {} \<longrightarrow>
            (\<exists>names. set names = set right - set left \<and> distinct names \<and>
               ''Only in '' @ last_version_of vs @ ''/: '' @ join '', '' names
                 \<in> set (errors_of (validate_directory e p errors))))"
proof -
  let ?v = "last_version_of vs"
  obtain ys where ys: "errors_of (validate_directory e p errors)
      = only_in_errors e ?v left right errors @ ys"
    unfolding validate_directory_compares [OF ne pvs l r] errors_of_def left right
    using compare_common_appends by blast
  have a: "''Only in latest/: '' @ join '', '' (set_minus e left right)
       \<in> set (errors_of (validate_directory e p errors))"
    if "set left - set right \<noteq> {}"
    using only_in_errors_latest [OF that, of e ?v errors] unfolding ys by simp
  have b: "''Only in '' @ ?v @ ''/: '' @ join '', '' (set_minus e right left)
       \<in> set (errors_of (validate_directory e p errors))"
    if "set right - set left \<noteq> {}"
    using only_in_errors_version [OF that, of ?v e errors] unfolding ys by simp
  show ?thesis
  proof (intro conjI impI)
    assume h: "set left - set right \<noteq> {}"
    show "\<exists>names. set names = set left - set right \<and> distinct names \<and>
               ''Only in latest/: '' @ join '', '' names
                 \<in> set (errors_of (validate_directory e p errors))"
      using a [OF h] set_set_minus [of e left right] distinct_set_minus [of e left right]
      by (intro exI [of _ "set_minus e left right"] conjI)
  next
    assume h: "set right - set left \<noteq> {}"
    show "\<exists>names. set names = set right - set left \<and> distinct names \<and>
               ''Only in '' @ ?v @ ''/: '' @ join '', '' names
                 \<in> set (errors_of (validate_directory e p errors))"
      using b [OF h] set_set_minus [of e right left] distinct_set_minus [of e right left]
      by (intro exI [of _ "set_minus e right left"] conjI)
  qed
qed


theorem only_in_one_directory_witness:
  "list_folders (tree_env drift_tree) onto \<noteq> [] \<and>
   parse_versions (tree_env drift_tree) (list_folders (tree_env drift_tree) onto)
     = Inr [([1], ''1.0'')] \<and>
   path_exists (tree_env drift_tree) (joinpath onto ''latest'') \<and>
   path_exists (tree_env drift_tree) (joinpath onto (last_version_of [([1::nat], ''1.0'')])) \<and>
   set (glob_star (tree_env drift_tree) (joinpath onto ''latest''))
     - set (glob_star (tree_env drift_tree)
         (joinpath onto (last_version_of [([1::nat], ''1.0'')]))) \<noteq> {} \<and>
   set (glob_star (tree_env drift_tree) (joinpath onto (last_version_of [([1::nat], ''1.0'')])))
     - set (glob_star (tree_env drift_tree) (joinpath onto ''latest'')) \<noteq> {} \<and>
   (\<exists>names. set names = set (glob_star (tree_env drift_tree) (joinpath onto ''latest''))
       - set (glob_star (tree_env drift_tree)
           (joinpath onto (last_version_of [([1::nat], ''1.0'')]))) \<and> distinct names \<and>
      ''Only in latest/: '' @ join '', '' names
        \<in> set (errors_of (validate_directory (tree_env drift_tree) onto []))) \<and>
   (\<exists>names. set names = set (glob_star (tree_env drift_tree)
           (joinpath onto (last_version_of [([1::nat], ''1.0'')])))
       - set (glob_star (tree_env drift_tree) (joinpath onto ''latest'')) \<and> distinct names \<and>
      ''Only in '' @ last_version_of [([1::nat], ''1.0'')] @ ''/: '' @ join '', '' names
        \<in> set (errors_of (validate_directory (tree_env drift_tree) onto [])))"
proof -
  have h1: "list_folders (tree_env drift_tree) onto \<noteq> []"
    by code_simp
  have h2: "parse_versions (tree_env drift_tree) (list_folders (tree_env drift_tree) onto)
     = Inr [([1], ''1.0'')]"
    by code_simp
  have h3: "path_exists (tree_env drift_tree) (joinpath onto ''latest'')"
    by code_simp
  have h4: "path_exists (tree_env drift_tree)
      (joinpath onto (last_version_of [([1::nat], ''1.0'')]))"
    by code_simp
  have d1: "set (glob_star (tree_env drift_tree) (joinpath onto ''latest''))
     - set (glob_star (tree_env drift_tree)
         (joinpath onto (last_version_of [([1::nat], ''1.0'')]))) \<noteq> {}"
    by code_simp
  have d2: "set (glob_star (tree_env drift_tree)
        (joinpath onto (last_version_of [([1::nat], ''1.0'')])))
     - set (glob_star (tree_env drift_tree) (joinpath onto ''latest'')) \<noteq> {}"
    by code_simp
  note t = only_in_one_directory [OF h1 h2 h3 h4 refl refl, of "[]"]
  note c1 = t [THEN conjunct1, THEN mp, OF d1]
  note c2 = t [THEN conjunct2, THEN mp, OF d2]
  from h1 h2 h3 h4 d1 d2 c1 c2 show ?thesis by (intro conjI)
qed

subsection \<open>Identical directories\<close>

lemma byte_identical_cmp: "byte_identical e f1 f2 \<Longrightarrow> cmp e f1 f2 = Some True"
  by (auto simp: byte_identical_def cmp_def do_cmp_def split: option.splits)

lemma cmpfiles_all_match:
  "\<forall>x\<in>set xs. cmp e (joinpath a x) (joinpath b x) = Some True \<Longrightarrow>
   cmpfiles e a b xs = (xs, [], [])"
  by (induction xs) simp_all

lemma compare_common_all_match:
  assumes "\<forall>x\<in>set common. cmp e (joinpath a x) (joinpath b x) = Some True"
  shows "compare_common e a b common errors lg = (Inr (), errors, lg)"
  using cmpfiles_all_match [OF assms] by (simp add: compare_common_def)

lemma only_in_errors_same_names:
  assumes "set left = set right"
  shows "only_in_errors e v left right errors = errors"
proof -
  have "set (set_minus e left right) = {}" "set (set_minus e right left) = {}"
    using assms by (simp_all add: set_set_minus)
  then have "set_minus e left right = []" "set_minus e right left = []" by simp_all
  then show ?thesis by (simp add: only_in_errors_def)
qed

text \<open>
  Claim C4. Let there be version directories, all named by versions, and let \<^verbatim>\<open>latest\<close>
  exist. When \<^verbatim>\<open>latest\<close> and the directory of the selected version list the same set
  of names and, for every name, the two files are byte-identical, the list after the
  call is the list the caller passed.
\<close>

theorem identical_directories_leave_errors:
  assumes ne: "list_folders e p \<noteq> []"
    and pvs: "parse_versions e (list_folders e p) = Inr vs"
    and l: "path_exists e (joinpath p ''latest'')"
    and names: "set (glob_star e (joinpath p ''latest''))
                  = set (glob_star e (joinpath p (last_version_of vs)))"
    and same: "\<forall>x\<in>set (glob_star e (joinpath p ''latest'')).
                 byte_identical e (joinpath (joinpath p ''latest'') x)
                   (joinpath (joinpath p (last_version_of vs)) x)"
  shows "errors_of (validate_directory e p errors) = errors"
proof (cases "path_exists e (joinpath p (last_version_of vs))")
  case False
  with ne pvs l show ?thesis by (simp add: errors_of_def validate_directory_def Let_def)
next
  case True
  let ?l = "joinpath p ''latest''" and ?r = "joinpath p (last_version_of vs)"
  have "\<forall>x\<in>set (set_inter e (glob_star e ?r) (glob_star e ?l)).
          cmp e (joinpath ?l x) (joinpath ?r x) = Some True"
    using same names by (simp add: set_set_inter byte_identical_cmp)
  then have "compare_common e ?l ?r (set_inter e (glob_star e ?r) (glob_star e ?l))
      (only_in_errors e (last_version_of vs) (glob_star e ?l) (glob_star e ?r) errors)
      [LogDebug ''Identified folders: %r'' (list_folders e p),
       LogDebug ''Latest version: %r'' [last_version_of vs]]
    = (Inr (), only_in_errors e (last_version_of vs) (glob_star e ?l) (glob_star e ?r) errors,
       [LogDebug ''Identified folders: %r'' (list_folders e p),
        LogDebug ''Latest version: %r'' [last_version_of vs]])"
    by (rule compare_common_all_match)
  then show ?thesis
    unfolding validate_directory_compares [OF ne pvs l True] errors_of_def
    by (simp add: only_in_errors_same_names [OF names])
qed

theorem identical_directories_leave_errors_witness:
  "list_folders (tree_env versions_tree) onto \<noteq> [] \<and>
   parse_versions (tree_env versions_tree) (list_folders (tree_env versions_tree) onto)
     = Inr [([1], ''1.0''), ([10], ''10.0''), ([2, 3], ''2.3'')] \<and>
   path_exists (tree_env versions_tree) (joinpath onto ''latest'') \<and>
   set (glob_star (tree_env versions_tree) (joinpath onto ''latest''))
     = set (glob_star (tree_env versions_tree) (joinpath onto
         (last_version_of [([1::nat], ''1.0''), ([10], ''10.0''), ([2, 3], ''2.3'')]))) \<and>
   glob_star (tree_env versions_tree) (joinpath onto ''latest'') = [''b.ttl'', ''a.ttl''] \<and>
   byte_identical (tree_env versions_tree) (joinpath (joinpath onto ''latest'') ''b.ttl'')
     (joinpath (joinpath onto
        (last_version_of [([1::nat], ''1.0''), ([10], ''10.0''), ([2, 3], ''2.3'')])) ''b.ttl'') \<and>
   byte_identical (tree_env versions_tree) (joinpath (joinpath onto ''latest'') ''a.ttl'')
     (joinpath (joinpath onto
        (last_version_of [([1::nat], ''1.0''), ([10], ''10.0''), ([2, 3], ''2.3'')])) ''a.ttl'') \<and>
   errors_of (validate_directory (tree_env versions_tree) onto [''earlier'']) = [''earlier'']"
proof -
  have g: "glob_star (tree_env versions_tree) (joinpath onto ''latest'') = [''b.ttl'', ''a.ttl'']"
    by code_simp
  have b1: "byte_identical (tree_env versions_tree) (joinpath (joinpath onto ''latest'') ''b.ttl'')
     (joinpath (joinpath onto
        (last_version_of [([1::nat], ''1.0''), ([10], ''10.0''), ([2, 3], ''2.3'')])) ''b.ttl'')"
    by code_simp
  have b2: "byte_identical (tree_env versions_tree) (joinpath (joinpath onto ''latest'') ''a.ttl'')
     (joinpath (joinpath onto
        (last_version_of [([1::nat], ''1.0''), ([10], ''10.0''), ([2, 3], ''2.3'')])) ''a.ttl'')"
    by code_simp
  have h1: "list_folders (tree_env versions_tree) onto \<noteq> []"
    by code_simp
  have h2: "parse_versions (tree_env versions_tree) (list_folders (tree_env versions_tree) onto)
     = Inr [([1], ''1.0''), ([10], ''10.0''), ([2, 3], ''2.3'')]"
    by code_simp
  have h3: "path_exists (tree_env versions_tree) (joinpath onto ''latest'')"
    by code_simp
  have h4: "set (glob_star (tree_env versions_tree) (joinpath onto ''latest''))
     = set (glob_star (tree_env versions_tree) (joinpath onto
         (last_version_of [([1::nat], ''1.0''), ([10], ''10.0''), ([2, 3], ''2.3'')])))"
    by code_simp
  have h5: "\<forall>x\<in>set (glob_star (tree_env versions_tree) (joinpath onto ''latest'')).
      byte_identical (tree_env versions_tree) (joinpath (joinpath onto ''latest'') x)
        (joinpath (joinpath onto
           (last_version_of [([1::nat], ''1.0''), ([10], ''10.0''), ([2, 3], ''2.3'')])) x)"
    unfolding g using b1 b2 by simp
  note t = identical_directories_leave_errors [OF h1 h2 h3 h4 h5, of "[''earlier'']"]
  from h1 h2 h3 h4 g b1 b2 t show ?thesis by (intro conjI)
qed

subsection \<open>Files that differ\<close>

text \<open>
  Two files whose bytes differ and whose lines, read in text mode, are the same: the
  byte comparison finds a mismatch, the diff of the lines is empty, and the call appends
  nothing and logs no diff.
\<close>

theorem crlf_difference_not_reported:
  "path_is_dir (tree_env crlf_tree) (joinpath onto ''latest'') \<and>
   path_is_dir (tree_env crlf_tree) (joinpath onto ''1.0'') \<and>
   list_folders (tree_env crlf_tree) onto = [''1.0''] \<and>
   read_bytes (tree_env crlf_tree) (joinpath (joinpath onto ''latest'') ''a.ttl'')
     = Some [CHR ''x'', CHR 0x0A] \<and>
   read_bytes (tree_env crlf_tree) (joinpath (joinpath onto ''1.0'') ''a.ttl'')
     = Some [CHR ''x'', CHR 0x0D, CHR 0x0A] \<and>
   validate_directory (tree_env crlf_tree) onto [] =
     (Inr (), [],
      [LogDebug ''Identified folders: %r'' [''1.0''],
       LogDebug ''Latest version: %r'' [''1.0'']])"
  by code_simp

lemma cmpfiles_mismatch:
  "x \<in> set xs \<Longrightarrow> cmp e (joinpath a x) (joinpath b x) = Some False \<Longrightarrow>
   x \<in> set (fst (snd (cmpfiles e a b xs)))"
proof (induction xs)
  case Nil
  then show ?case by simp
next
  case (Cons y ys)
  obtain m mm er where c: "cmpfiles e a b ys = (m, mm, er)"
    by (cases "cmpfiles e a b ys") auto
  show ?case
  proof (cases "x = y")
    case True
    with Cons.prems c show ?thesis by simp
  next
    case False
    with Cons have "x \<in> set mm" using c by simp
    with c show ?thesis by (simp split: option.split bool.split)
  qed
qed

lemma mismatch_loop_reports:
  assumes "mismatch_loop e l r names errors lg = (Inr u, errors', lg')"
    and "fname \<in> set names"
    and "diff_files e (joinpath l fname) (joinpath r fname) = Inr d"
    and "d \<noteq> []"
  shows "''ERROR: files are different: '' @ as_posix (joinpath l fname)
            @ '' '' @ as_posix (joinpath r fname) \<in> set errors'
         \<and> LogError d \<in> set lg'"
  using assms
proof (induction names arbitrary: errors lg)
  case Nil
  then show ?case by simp
next
  case (Cons n rest)
  let ?m = "\<lambda>f. ''ERROR: files are different: '' @ as_posix (joinpath l f)
                  @ '' '' @ as_posix (joinpath r f)"
  show ?case
  proof (cases "diff_files e (joinpath l n) (joinpath r n)")
    case (Inl err)
    with Cons.prems(1) show ?thesis by (simp add: Let_def)
  next
    case (Inr dn)
    let ?errors1 = "if dn \<noteq> [] then errors @ [?m n] else errors"
    let ?lg1 = "if dn \<noteq> [] then lg @ [LogError dn] else lg"
    have run: "mismatch_loop e l r rest ?errors1 ?lg1 = (Inr u, errors', lg')"
    proof (cases "dn = []")
      case True
      with Cons.prems(1) Inr show ?thesis by (simp add: Let_def)
    next
      case False
      with Cons.prems(1) Inr show ?thesis by (simp add: Let_def)
    qed
    show ?thesis
    proof (cases "fname = n")
      case True
      with Inr Cons.prems(3,4) have dn: "dn = d" "dn \<noteq> []" by simp_all
      obtain ys where ys: "errors' = ?errors1 @ ys"
        using mismatch_loop_appends [of e l r rest ?errors1 ?lg1] run by auto
      obtain zs where zs: "lg' = ?lg1 @ zs"
        using mismatch_loop_log [of e l r rest ?errors1 ?lg1] run by auto
      show ?thesis unfolding ys zs using dn True by simp
    next
      case False
      with Cons.prems(2) have "fname \<in> set rest" by simp
      from Cons.IH [OF run this Cons.prems(3,4)] show ?thesis .
    qed
  qed
qed

lemma compare_common_keeps:
  assumes "compare_common e l r common errors lg = (Inr u, errors', lg')"
    and "cmpfiles e l r common = (match, mismatch, errs)"
  shows "\<exists>errors1 ys. mismatch_loop e l r mismatch errors lg = (Inr (), errors1, lg')
           \<and> errors' = errors1 @ ys"
proof -
  have ne: "common \<noteq> [] \<or> mismatch = []"
    using assms(2) by (cases common) auto
  obtain out errors1 lg1 where m: "mismatch_loop e l r mismatch errors lg = (out, errors1, lg1)"
    by (cases "mismatch_loop e l r mismatch errors lg") auto
  show ?thesis
  proof (cases "common = []")
    case True
    with assms show ?thesis by (simp add: compare_common_def)
  next
    case False
    with assms m show ?thesis
      by (cases out) (auto simp: compare_common_def split: if_splits)
  qed
qed


lemma unified_diff_nonempty:
  "a \<noteq> b \<Longrightarrow> concat (unified_diff e a b fromfile tofile) \<noteq> []"
  by (simp add: unified_diff_def)

text \<open>
  Claim C1, amended. Let the call reach the comparison and return normally. For every
  name listed in both directories whose two files are regular files that can be read and
  decoded, and whose lines in text mode (universal newlines) differ, the list after the
  call has the entry \<^verbatim>\<open>ERROR: files are different: \<close> followed by the two paths, and
  the log has an error record with the unified diff of the two files, which is not
  empty.
\<close>

theorem differing_text_reported:
  assumes ne: "list_folders e p \<noteq> []"
    and pvs: "parse_versions e (list_folders e p) = Inr vs"
    and l: "path_exists e (joinpath p ''latest'')"
    and r: "path_exists e (joinpath p (last_version_of vs))"
    and ret: "outcome_of (validate_directory e p errors) = Inr ()"
    and lp: "left_path = joinpath (joinpath p ''latest'') name"
    and rp: "right_path = joinpath (joinpath p (last_version_of vs)) name"
    and inl: "name \<in> set (glob_star e (joinpath p ''latest''))"
    and inr: "name \<in> set (glob_star e (joinpath p (last_version_of vs)))"
    and regl: "map_option fst (stat e left_path) = Some Regular"
    and regr: "map_option fst (stat e right_path) = Some Regular"
    and rdl: "read_bytes e left_path = Some lb"
    and rdr: "read_bytes e right_path = Some rb"
    and decl: "decode e lb = Some lt"
    and decr: "decode e rb = Some rt"
    and lines: "readlines (universal_newlines lt) \<noteq> readlines (universal_newlines rt)"
    and d: "diffs = concat (unified_diff e (readlines (universal_newlines lt))
                      (readlines (universal_newlines rt)) (as_posix left_path)
                      (as_posix right_path))"
  shows "''ERROR: files are different: '' @ as_posix left_path @ '' '' @ as_posix right_path
           \<in> set (errors_of (validate_directory e p errors))
         \<and> diffs \<noteq> []
         \<and> LogError diffs \<in> set (log_of (validate_directory e p errors))"
proof -
  let ?l = "joinpath p ''latest''" and ?r = "joinpath p (last_version_of vs)"
  let ?common = "set_inter e (glob_star e ?r) (glob_star e ?l)"
  let ?errors0 = "only_in_errors e (last_version_of vs) (glob_star e ?l) (glob_star e ?r) errors"
  let ?lg0 = "[LogDebug ''Identified folders: %r'' (list_folders e p),
               LogDebug ''Latest version: %r'' [last_version_of vs]]"
  have "lb \<noteq> rb" using lines decl decr by auto
  then have c: "cmp e left_path right_path = Some False"
    using regl regr rdl rdr by (auto simp: cmp_def do_cmp_def split: option.splits)
  obtain match mismatch errs where cf: "cmpfiles e ?l ?r ?common = (match, mismatch, errs)"
    by (cases "cmpfiles e ?l ?r ?common") auto
  have "name \<in> set ?common" using inl inr by (simp add: set_set_inter)
  from cmpfiles_mismatch [OF this, of e ?l ?r] c cf have mm: "name \<in> set mismatch"
    by (simp add: lp rp)
  obtain errors' lg' where res: "validate_directory e p errors = (Inr (), errors', lg')"
    using ret by (cases "validate_directory e p errors") (auto simp: outcome_of_def)
  then have cc: "compare_common e ?l ?r ?common ?errors0 ?lg0 = (Inr (), errors', lg')"
    by (simp only: validate_directory_compares [OF ne pvs l r])
  from compare_common_keeps [OF cc cf] obtain errors1 ys
    where ml: "mismatch_loop e ?l ?r mismatch ?errors0 ?lg0 = (Inr (), errors1, lg')"
      and e': "errors' = errors1 @ ys" by blast
  have df: "diff_files e (joinpath ?l name) (joinpath ?r name) = Inr diffs"
    using rdl rdr decl decr by (simp add: diff_files_def lp rp d)
  have dne: "diffs \<noteq> []" unfolding d using lines by (rule unified_diff_nonempty)
  from mismatch_loop_reports [OF ml mm df dne]
  have "''ERROR: files are different: '' @ as_posix left_path @ '' '' @ as_posix right_path
           \<in> set errors1" and "LogError diffs \<in> set lg'"
    by (simp_all add: lp rp)
  with dne show ?thesis by (simp add: res e' errors_of_def log_of_def)
qed


theorem differing_text_reported_witness:
  "list_folders (tree_env drift_tree) onto \<noteq> [] \<and>
   parse_versions (tree_env drift_tree) (list_folders (tree_env drift_tree) onto) = Inr
     [([1::nat], ''1.0'')] \<and>
   path_exists (tree_env drift_tree) (joinpath onto ''latest'') \<and>
   path_exists (tree_env drift_tree) (joinpath onto (last_version_of [([1::nat],
     ''1.0'')])) \<and>
   outcome_of (validate_directory (tree_env drift_tree) onto []) = Inr () \<and>
   ''a.ttl'' \<in> set (glob_star (tree_env drift_tree) (joinpath onto ''latest'')) \<and>
   ''a.ttl'' \<in> set (glob_star (tree_env drift_tree) (joinpath onto (last_version_of
     [([1::nat], ''1.0'')]))) \<and>
   map_option fst (stat (tree_env drift_tree) (joinpath (joinpath onto ''latest'')
     ''a.ttl'')) = Some Regular \<and>
   map_option fst (stat (tree_env drift_tree) (joinpath (joinpath onto (last_version_of
     [([1::nat], ''1.0'')])) ''a.ttl'')) = Some Regular \<and>
   read_bytes (tree_env drift_tree) (joinpath (joinpath onto ''latest'') ''a.ttl'') = Some
     (''x'' @ [LF]) \<and>
   read_bytes (tree_env drift_tree) (joinpath (joinpath onto (last_version_of [([1::nat],
     ''1.0'')])) ''a.ttl'') = Some (''y'' @ [LF]) \<and>
   decode (tree_env drift_tree) (''x'' @ [LF]) = Some (''x'' @ [LF]) \<and>
   decode (tree_env drift_tree) (''y'' @ [LF]) = Some (''y'' @ [LF]) \<and>
   readlines (universal_newlines (''x'' @ [LF])) \<noteq> readlines (universal_newlines
     (''y'' @ [LF])) \<and>
   ''ERROR: files are different: '' @ as_posix (joinpath (joinpath onto ''latest'')
     ''a.ttl'') @ '' '' @ as_posix (joinpath (joinpath onto (last_version_of [([1::nat],
     ''1.0'')])) ''a.ttl'') \<in> set (errors_of (validate_directory (tree_env drift_tree)
     onto [])) \<and>
   (concat (unified_diff (tree_env drift_tree) (readlines (universal_newlines (''x'' @
     [LF]))) (readlines (universal_newlines (''y'' @ [LF]))) (as_posix (joinpath (joinpath
     onto ''latest'') ''a.ttl'')) (as_posix (joinpath (joinpath onto (last_version_of
     [([1::nat], ''1.0'')])) ''a.ttl'')))) \<noteq> [] \<and>
   LogError (concat (unified_diff (tree_env drift_tree) (readlines (universal_newlines
     (''x'' @ [LF]))) (readlines (universal_newlines (''y'' @ [LF]))) (as_posix (joinpath
     (joinpath onto ''latest'') ''a.ttl'')) (as_posix (joinpath (joinpath onto
     (last_version_of [([1::nat], ''1.0'')])) ''a.ttl'')))) \<in> set (log_of
     (validate_directory (tree_env drift_tree) onto []))"
proof -
  have ne: "list_folders (tree_env drift_tree) onto \<noteq> []"
    by code_simp
  have pvs: "parse_versions (tree_env drift_tree) (list_folders (tree_env drift_tree) onto) = Inr
        [([1::nat], ''1.0'')]"
    by code_simp
  have l: "path_exists (tree_env drift_tree) (joinpath onto ''latest'')"
    by code_simp
  have r: "path_exists (tree_env drift_tree) (joinpath onto (last_version_of [([1::nat],
        ''1.0'')]))"
    by code_simp
  have ret: "outcome_of (validate_directory (tree_env drift_tree) onto []) = Inr ()"
    by code_simp
  have inl: "''a.ttl'' \<in> set (glob_star (tree_env drift_tree) (joinpath onto ''latest''))"
    by code_simp
  have inr: "''a.ttl'' \<in> set (glob_star (tree_env drift_tree) (joinpath onto (last_version_of
        [([1::nat], ''1.0'')])))"
    by code_simp
  have regl: "map_option fst (stat (tree_env drift_tree) (joinpath (joinpath onto ''latest'')
        ''a.ttl'')) = Some Regular"
    by code_simp
  have regr: "map_option fst (stat (tree_env drift_tree) (joinpath (joinpath onto (last_version_of
        [([1::nat], ''1.0'')])) ''a.ttl'')) = Some Regular"
    by code_simp
  have rdl: "read_bytes (tree_env drift_tree) (joinpath (joinpath onto ''latest'') ''a.ttl'') =
        Some (''x'' @ [LF])"
    by code_simp
  have rdr: "read_bytes (tree_env drift_tree) (joinpath (joinpath onto (last_version_of
        [([1::nat], ''1.0'')])) ''a.ttl'') = Some (''y'' @ [LF])"
    by code_simp
  have decl: "decode (tree_env drift_tree) (''x'' @ [LF]) = Some (''x'' @ [LF])"
    by code_simp
  have decr: "decode (tree_env drift_tree) (''y'' @ [LF]) = Some (''y'' @ [LF])"
    by code_simp
  have lines: "readlines (universal_newlines (''x'' @ [LF])) \<noteq> readlines (universal_newlines
        (''y'' @ [LF]))"
    by code_simp
  note t = differing_text_reported [OF ne pvs l r ret refl refl inl inr regl regr rdl rdr
      decl decr lines refl]
  note c1 = t [THEN conjunct1]
  note c2 = t [THEN conjunct2, THEN conjunct1]
  note c3 = t [THEN conjunct2, THEN conjunct2]
  from ne pvs l r ret inl inr regl regr rdl rdr decl decr lines c1 c2 c3
  show ?thesis by (intro conjI)
qed

subsection \<open>validate\_shacl without a rules file\<close>

lemma find_rules_None_iff:
  "find_rules e n d = None \<longleftrightarrow>
   (\<forall>x\<in>set (examined_dirs e n d). \<not> path_exists e (joinpath x ''rules.shacl''))"
  by (induction n arbitrary: d) (simp_all add: Let_def)

lemma length_examined_dirs: "length (examined_dirs e n d) \<le> n"
  by (induction n arbitrary: d) simp_all

text \<open>
  Claim C5. When none of the directories the walk looks at (at most \<open>MAX_DEPTH = 5\<close>,
  from the parent of the file upwards, none above \<open>basedir\<close>) has a \<^verbatim>\<open>rules.shacl\<close>, the
  call is the validation with no graph and no rules path: the engine is called with
  \<open>None\<close> for the graph, and the outcome is the engine's alone: normal return when it
  finds the file valid, exit code 1 when it does not, its own exception when it raises.
\<close>

theorem no_rules_file_validates_without_graph:
  assumes "\<forall>d\<in>set (examined_dirs e MAX_DEPTH (parent file)).
             \<not> path_exists e (joinpath d ''rules.shacl'')"
  shows "validate_shacl e cache file =
           run_validation e file None None cache [LogInfo (''Validating '' @ as_posix file)]
         \<and> outcome_of (validate_shacl e cache file) =
             (case shacl_validate e (as_posix file) None True of
                Inl m \<Rightarrow> Inl (ValidationException m)
              | Inr (is_valid, graph, report_text) \<Rightarrow>
                  if is_valid then Inr () else Inl (SystemExit 1))"
proof -
  have "find_rules e MAX_DEPTH (parent file) = None"
    using assms by (simp only: find_rules_None_iff)
  then have v: "validate_shacl e cache file =
           run_validation e file None None cache [LogInfo (''Validating '' @ as_posix file)]"
    by (simp add: validate_shacl_def)
  show ?thesis unfolding v
    by (simp add: run_validation_def outcome_of_def split: sum.split prod.split)
qed

theorem no_rules_file_validates_without_graph_witness:
  "examined_dirs (tree_env shacl_tree) MAX_DEPTH
       (parent (Path True [''repo'', ''plain'', ''y.ttl''])) =
     [Path True [''repo'', ''plain''], Path True [''repo''], Path True [], Path True [],
      Path True []] \<and>
   \<not> path_exists (tree_env shacl_tree) (joinpath (Path True [''repo'', ''plain'']) ''rules.shacl'') \<and>
   \<not> path_exists (tree_env shacl_tree) (joinpath (Path True [''repo'']) ''rules.shacl'') \<and>
   \<not> path_exists (tree_env shacl_tree) (joinpath (Path True []) ''rules.shacl'') \<and>
   validate_shacl (tree_env shacl_tree) [] (Path True [''repo'', ''plain'', ''y.ttl'']) =
     run_validation (tree_env shacl_tree) (Path True [''repo'', ''plain'', ''y.ttl''])
       None None [] [LogInfo (''Validating '' @ as_posix (Path True [''repo'', ''plain'', ''y.ttl'']))] \<and>
   outcome_of (validate_shacl (tree_env shacl_tree) []
       (Path True [''repo'', ''plain'', ''y.ttl''])) =
     (case shacl_validate (tree_env shacl_tree)
             (as_posix (Path True [''repo'', ''plain'', ''y.ttl''])) None True of
        Inl m \<Rightarrow> Inl (ValidationException m)
      | Inr (is_valid, graph, report_text) \<Rightarrow>
          if is_valid then Inr () else Inl (SystemExit 1))"
proof -
  have x: "examined_dirs (tree_env shacl_tree) MAX_DEPTH
       (parent (Path True [''repo'', ''plain'', ''y.ttl''])) =
     [Path True [''repo'', ''plain''], Path True [''repo''], Path True [], Path True [],
      Path True []]"
    by code_simp
  have p1: "\<not> path_exists (tree_env shacl_tree)
      (joinpath (Path True [''repo'', ''plain'']) ''rules.shacl'')"
    by code_simp
  have p2: "\<not> path_exists (tree_env shacl_tree) (joinpath (Path True [''repo'']) ''rules.shacl'')"
    by code_simp
  have p3: "\<not> path_exists (tree_env shacl_tree) (joinpath (Path True []) ''rules.shacl'')"
    by code_simp
  have h: "\<forall>d\<in>set (examined_dirs (tree_env shacl_tree) MAX_DEPTH
              (parent (Path True [''repo'', ''plain'', ''y.ttl'']))).
      \<not> path_exists (tree_env shacl_tree) (joinpath d ''rules.shacl'')"
    unfolding x using p1 p2 p3 by simp
  note t = no_rules_file_validates_without_graph [OF h, of "[]"]
  from x p1 p2 p3 t [THEN conjunct1] t [THEN conjunct2] show ?thesis by (intro conjI)
qed

subsection \<open>The exit code of validate\_shacl\<close>

lemma run_validation_outcome:
  "fst (run_validation e file g rp cache lg) =
     (case shacl_validate e (as_posix file) g True of
        Inl m \<Rightarrow> Inl (ValidationException m)
      | Inr (is_valid, graph, report_text) \<Rightarrow>
          if is_valid then Inr () else Inl (SystemExit 1))"
  by (simp add: run_validation_def split: sum.split prod.split)

lemma lru_get_shacl_graph_no_exit:
  "fst (lru_get_shacl_graph e cache s) \<noteq> Inl (SystemExit n)"
proof (cases "parse_turtle e s")
  case (Inl raised)
  then show ?thesis
    by (cases raised)
       (simp_all add: lru_get_shacl_graph_def get_shacl_graph_def split: option.split)
next
  case (Inr g)
  then show ?thesis
    by (simp add: lru_get_shacl_graph_def get_shacl_graph_def split: option.split)
qed

lemma validate_shacl_outcome:
  "outcome_of (validate_shacl e cache file) =
     (case engine_result e cache file of
        None \<Rightarrow>
          (case find_rules e MAX_DEPTH (parent file) of
             None \<Rightarrow> Inr ()
           | Some c \<Rightarrow>
               (case fst (lru_get_shacl_graph e cache (as_posix (absolute e c))) of
                  Inl err \<Rightarrow> Inl err
                | Inr g \<Rightarrow> Inr ()))
      | Some (Inl m) \<Rightarrow> Inl (ValidationException m)
      | Some (Inr (is_valid, graph, report_text)) \<Rightarrow>
          if is_valid then Inr () else Inl (SystemExit 1))"
proof (cases "find_rules e MAX_DEPTH (parent file)")
  case None
  then show ?thesis
    by (simp add: outcome_of_def validate_shacl_def engine_result_def run_validation_outcome)
next
  case (Some c)
  obtain out cache1 lg where lru:
    "lru_get_shacl_graph e cache (as_posix (absolute e c)) = (out, cache1, lg)"
    by (cases "lru_get_shacl_graph e cache (as_posix (absolute e c))") auto
  show ?thesis
  proof (cases out)
    case (Inl err)
    with Some lru show ?thesis
      by (simp add: outcome_of_def validate_shacl_def engine_result_def Let_def)
  next
    case (Inr g)
    with Some lru show ?thesis
      by (simp add: outcome_of_def validate_shacl_def engine_result_def Let_def
          run_validation_outcome)
  qed
qed

text \<open>
  Claim C6. The call ends in \<^verbatim>\<open>SystemExit(1)\<close> exactly when the engine is reached and
  reports the file invalid; when the engine reports the file valid, the call returns
  normally.
\<close>

theorem exit_1_iff_engine_reports_invalid:
  "(outcome_of (validate_shacl e cache file) = Inl (SystemExit 1)
      \<longleftrightarrow> (\<exists>graph report_text.
             engine_result e cache file = Some (Inr (False, graph, report_text))))
   \<and> ((\<exists>graph report_text.
          engine_result e cache file = Some (Inr (True, graph, report_text)))
        \<longrightarrow> outcome_of (validate_shacl e cache file) = Inr ())"
proof (intro conjI impI)
  show "outcome_of (validate_shacl e cache file) = Inl (SystemExit 1)
      \<longleftrightarrow> (\<exists>graph report_text.
             engine_result e cache file = Some (Inr (False, graph, report_text)))"
  proof (cases "engine_result e cache file")
    case None
    show ?thesis
    proof (cases "find_rules e MAX_DEPTH (parent file)")
      case fn: None
      with None show ?thesis by (simp add: validate_shacl_outcome)
    next
      case (Some c)
      with None lru_get_shacl_graph_no_exit [of e cache "as_posix (absolute e c)" 1]
      show ?thesis by (auto simp: validate_shacl_outcome split: sum.split)
    qed
  next
    case (Some a)
    then show ?thesis
      by (cases a) (auto simp: validate_shacl_outcome)
  qed
next
  assume "\<exists>graph report_text.
          engine_result e cache file = Some (Inr (True, graph, report_text))"
  then show "outcome_of (validate_shacl e cache file) = Inr ()"
    by (auto simp: validate_shacl_outcome)
qed

theorem exit_1_iff_engine_reports_invalid_witness:
  "(\<exists>graph report_text.
      engine_result rejecting_env [] (Path True [''repo'', ''assets'', ''vocab'', ''x.ttl''])
        = Some (Inr (False, graph, report_text))) \<and>
   outcome_of (validate_shacl rejecting_env []
       (Path True [''repo'', ''assets'', ''vocab'', ''x.ttl''])) = Inl (SystemExit 1) \<and>
   (\<exists>graph report_text.
      engine_result (tree_env shacl_tree) []
          (Path True [''repo'', ''assets'', ''vocab'', ''x.ttl''])
        = Some (Inr (True, graph, report_text))) \<and>
   outcome_of (validate_shacl (tree_env shacl_tree) []
       (Path True [''repo'', ''assets'', ''vocab'', ''x.ttl''])) = Inr ()"
proof -
  have "engine_result rejecting_env [] (Path True [''repo'', ''assets'', ''vocab'', ''x.ttl''])
        = Some (Inr (False, [], ''Violation''))"
    by code_simp
  then have r: "\<exists>graph report_text.
      engine_result rejecting_env [] (Path True [''repo'', ''assets'', ''vocab'', ''x.ttl''])
        = Some (Inr (False, graph, report_text))"
    by (intro exI)
  have "engine_result (tree_env shacl_tree) []
          (Path True [''repo'', ''assets'', ''vocab'', ''x.ttl''])
        = Some (Inr (True, [], ''Conforms''))"
    by code_simp
  then have v: "\<exists>graph report_text.
      engine_result (tree_env shacl_tree) []
          (Path True [''repo'', ''assets'', ''vocab'', ''x.ttl''])
        = Some (Inr (True, graph, report_text))"
    by (intro exI)
  note c1 = exit_1_iff_engine_reports_invalid [of rejecting_env "[]"
      "Path True [''repo'', ''assets'', ''vocab'', ''x.ttl'']", THEN conjunct1, THEN iffD2, OF r]
  note c2 = exit_1_iff_engine_reports_invalid [of "tree_env shacl_tree" "[]"
      "Path True [''repo'', ''assets'', ''vocab'', ''x.ttl'']", THEN conjunct2, THEN mp, OF v]
  from r c1 v c2 show ?thesis by (intro conjI)
qed

subsection \<open>The assertion when the listed directories exist\<close>

lemma parse_versions_names:
  "parse_versions e xs = Inr vs \<Longrightarrow> map snd vs = xs"
proof (induction xs arbitrary: vs)
  case Nil
  then show ?case by simp
next
  case (Cons x xs)
  then show ?case
    by (cases "parse_version e x"; cases "parse_versions e xs") auto
qed

lemma parse_versions_not_assertion:
  "parse_versions e xs = Inl err \<Longrightarrow> err \<noteq> AssertionError"
proof (induction xs)
  case Nil
  then show ?case by simp
next
  case (Cons x xs)
  then show ?case
    by (cases "parse_version e x"; cases "parse_versions e xs") auto
qed

lemma last_version_of_listed:
  assumes "parse_versions e xs = Inr vs" and "xs \<noteq> []"
  shows "last_version_of vs \<in> set xs"
proof -
  have m: "map snd vs = xs" using assms(1) by (rule parse_versions_names)
  with assms(2) have "vs \<noteq> []" by auto
  then have "last (sort_key fst vs) \<in> set vs" by (rule last_sort_key_max(1))
  then have "snd (last (sort_key fst vs)) \<in> set (map snd vs)" by simp
  then show ?thesis by (simp add: last_version_of_def m)
qed

lemma diff_files_not_assertion:
  "diff_files e a b \<noteq> Inl AssertionError"
  by (simp add: diff_files_def split: option.split)

lemma mismatch_loop_not_assertion:
  "fst (mismatch_loop e l r names errors lg) \<noteq> Inl AssertionError"
proof (induction names arbitrary: errors lg)
  case Nil
  show ?case by simp
next
  case (Cons n rest)
  show ?case
  proof (cases "diff_files e (joinpath l n) (joinpath r n)")
    case (Inl err)
    with diff_files_not_assertion [of e "joinpath l n" "joinpath r n"]
    show ?thesis by (simp add: Let_def)
  next
    case (Inr d)
    with Cons.IH show ?thesis by (cases "d = []") (simp_all add: Let_def)
  qed
qed

lemma compare_common_not_assertion:
  "fst (compare_common e l r common errors lg) \<noteq> Inl AssertionError"
proof -
  obtain match mismatch errs where c: "cmpfiles e l r common = (match, mismatch, errs)"
    by (cases "cmpfiles e l r common") auto
  obtain out errors1 lg1 where m: "mismatch_loop e l r mismatch errors lg = (out, errors1, lg1)"
    by (cases "mismatch_loop e l r mismatch errors lg") auto
  from mismatch_loop_not_assertion [of e l r mismatch errors lg] m
  have "out \<noteq> Inl AssertionError" by simp
  with c m show ?thesis
    by (cases out) (auto simp: compare_common_def)
qed

text \<open>
  The selected version is one of the listed directories. When every path that
  \<^verbatim>\<open>is_dir\<close> accepts also \<^verbatim>\<open>exists\<close>, as in a file system that nothing changes during the
  call, the assertion of line 81 holds and no call raises \<^verbatim>\<open>AssertionError\<close>.
\<close>

lemma assertion_holds_when_listed_directories_exist:
  assumes "\<And>q. path_is_dir e q \<Longrightarrow> path_exists e q"
  shows "outcome_of (validate_directory e p errors) \<noteq> Inl AssertionError"
proof (cases "list_folders e p = []")
  case True
  then show ?thesis by (simp add: validate_directory_def outcome_of_def)
next
  case ne: False
  show ?thesis
  proof (cases "parse_versions e (list_folders e p)")
    case (Inl err)
    then have "err \<noteq> AssertionError" by (rule parse_versions_not_assertion)
    with ne Inl show ?thesis by (simp add: validate_directory_def outcome_of_def)
  next
    case (Inr vs)
    from last_version_of_listed [OF Inr ne]
    have "path_is_dir e (joinpath p (last_version_of vs))"
      by (simp add: list_folders_def)
    then have r: "path_exists e (joinpath p (last_version_of vs))" by (rule assms)
    show ?thesis
    proof (cases "path_exists e (joinpath p ''latest'')")
      case True
      show ?thesis
        unfolding validate_directory_compares [OF ne Inr True r] outcome_of_def
        by (rule compare_common_not_assertion)
    next
      case False
      with ne Inr show ?thesis by (simp add: validate_directory_def Let_def outcome_of_def)
    qed
  qed
qed

subsection \<open>get\_shacl\_graph\<close>




subsection \<open>The version selected and compared\<close>

text \<open>
  Line 70 sorts the pairs by their version with a stable sort and takes the last: the
  name selected is the last of the listed names whose version is the greatest.
\<close>

lemma parse_versions_keys:
  "parse_versions e xs = Inr vs \<Longrightarrow> vs = map (\<lambda>x. (the (parse_version e x), x)) xs"
proof (induction xs arbitrary: vs)
  case Nil
  then show ?case by simp
next
  case (Cons x xs)
  then show ?case
    by (cases "parse_version e x"; cases "parse_versions e xs") auto
qed

lemma insort_key_map:
  "insort_key f (g x) (map g ys) = map g (insort_key (\<lambda>y. f (g y)) x ys)"
  by (induction ys) simp_all

lemma sort_key_map:
  "sort_key f (map g xs) = map g (sort_key (\<lambda>y. f (g y)) xs)"
  by (induction xs) (simp_all add: insort_key_map)

lemma last_insort_key:
  "last (insort_key f x ys) = (if \<forall>y\<in>set ys. f y < f x then x else last ys)"
proof (induction ys)
  case Nil
  show ?case by simp
next
  case (Cons y ys)
  show ?case
  proof (cases "f x \<le> f y")
    case True
    then show ?thesis by auto
  next
    case False
    then have lt: "f y < f x" by simp
    have ne: "insort_key f x ys \<noteq> []" by (cases ys) auto
    show ?thesis
    proof (cases "ys = []")
      case True
      with lt False show ?thesis by simp
    next
      case nonempty: False
      with False ne Cons.IH lt show ?thesis by simp
    qed
  qed
qed

lemma last_sort_key_split:
  "xs \<noteq> [] \<Longrightarrow>
   \<exists>pre post. xs = pre @ last (sort_key f xs) # post
     \<and> (\<forall>x\<in>set pre. f x \<le> f (last (sort_key f xs)))
     \<and> (\<forall>x\<in>set post. f x < f (last (sort_key f xs)))"
proof (induction xs)
  case Nil
  then show ?case by simp
next
  case (Cons x rest)
  show ?case
  proof (cases "\<forall>y\<in>set rest. f y < f x")
    case True
    then have "last (sort_key f (x # rest)) = x" by (simp add: last_insort_key)
    with True have "x # rest = [] @ last (sort_key f (x # rest)) # rest
        \<and> (\<forall>z\<in>set []. f z \<le> f (last (sort_key f (x # rest))))
        \<and> (\<forall>z\<in>set rest. f z < f (last (sort_key f (x # rest))))" by simp
    then show ?thesis by blast
  next
    case False
    then have rne: "rest \<noteq> []" by auto
    from False have l: "last (sort_key f (x # rest)) = last (sort_key f rest)"
      by (auto simp: last_insort_key)
    from Cons.IH [OF rne] obtain pre post where
      sp: "rest = pre @ last (sort_key f rest) # post"
      and le: "\<forall>z\<in>set pre. f z \<le> f (last (sort_key f rest))"
      and lt: "\<forall>z\<in>set post. f z < f (last (sort_key f rest))" by blast
    from False obtain y where y: "y \<in> set rest" "f x \<le> f y" by (auto simp: not_less)
    have "f y \<le> f (last (sort_key f rest))"
      using last_sort_key_max(2) [OF rne, of f] y(1) by blast
    with y(2) have fx: "f x \<le> f (last (sort_key f rest))" by simp
    have "x # rest = (x # pre) @ last (sort_key f (x # rest)) # post
        \<and> (\<forall>z\<in>set (x # pre). f z \<le> f (last (sort_key f (x # rest))))
        \<and> (\<forall>z\<in>set post. f z < f (last (sort_key f (x # rest))))"
      unfolding l using sp le lt fx by simp
    then show ?thesis by blast
  qed
qed

lemma last_version_of_sort:
  assumes "parse_versions e xs = Inr vs" and "xs \<noteq> []"
  shows "last_version_of vs = last (sort_key (\<lambda>x. the (parse_version e x)) xs)"
proof -
  let ?g = "\<lambda>x. (the (parse_version e x), x)"
  have vs: "vs = map ?g xs" using assms(1) by (rule parse_versions_keys)
  have ne: "sort_key (\<lambda>x. the (parse_version e x)) xs \<noteq> []"
    using assms(2) by (metis length_sort length_0_conv)
  have "sort_key fst vs = map ?g (sort_key (\<lambda>x. the (parse_version e x)) xs)"
    unfolding vs by (simp add: sort_key_map)
  then show ?thesis using ne by (simp add: last_version_of_def last_map)
qed


lemma parse_versions_all_parse:
  "parse_versions e xs = Inr vs \<Longrightarrow> \<forall>x\<in>set xs. parse_version e x \<noteq> None"
proof (induction xs arbitrary: vs)
  case Nil
  then show ?case by simp
next
  case (Cons x xs)
  then show ?case
    by (cases "parse_version e x"; cases "parse_versions e xs") auto
qed

lemma split_greatest:
  fixes f :: "'a \<Rightarrow> 'b::linorder"
  assumes "xs = pre @ v # post"
    and "\<forall>x\<in>set pre. f x \<le> f v"
    and "\<forall>x\<in>set post. f x < f v"
    and "y \<in> set xs"
  shows "f y \<le> f v"
  using assms by (auto simp: less_imp_le)

text \<open>
  Claim C3. Let there be subdirectories other than \<^verbatim>\<open>latest\<close>, all named by versions. The
  function selects one of them, \<open>v\<close>, by the order of the versions and not of the names:
  every name listed before \<open>v\<close> has a version that is not greater, every name listed
  after it a version that is smaller. It is \<open>v\<close> that is logged as the latest version,
  and when \<^verbatim>\<open>latest\<close> and the directory \<open>v\<close> exist, the result of the call is the
  comparison of \<^verbatim>\<open>latest\<close> with the directory \<open>v\<close>. For the names \<^verbatim>\<open>1.0\<close>, \<^verbatim>\<open>2.3\<close> and
  \<^verbatim>\<open>10.0\<close>, in whatever order they are listed, and a library that puts the versions
  \<^verbatim>\<open>1.0\<close> and \<^verbatim>\<open>2.3\<close> below \<^verbatim>\<open>10.0\<close>, the directory selected is \<^verbatim>\<open>10.0\<close> (the greatest
  name as a string is \<^verbatim>\<open>2.3\<close>).
\<close>

theorem greatest_version_is_compared:
  assumes ne: "list_folders e p \<noteq> []"
    and pvs: "parse_versions e (list_folders e p) = Inr vs"
  shows "\<exists>v pre post.
      list_folders e p = pre @ v # post
    \<and> (\<forall>x\<in>set (list_folders e p). parse_version e x \<noteq> None)
    \<and> (\<forall>x\<in>set pre. the (parse_version e x) \<le> the (parse_version e v))
    \<and> (\<forall>x\<in>set post. the (parse_version e x) < the (parse_version e v))
    \<and> LogDebug ''Latest version: %r'' [v] \<in> set (log_of (validate_directory e p errors))
    \<and> (path_exists e (joinpath p ''latest'') \<and> path_exists e (joinpath p v) \<longrightarrow>
         validate_directory e p errors =
           compare_common e (joinpath p ''latest'') (joinpath p v)
             (set_inter e (glob_star e (joinpath p v)) (glob_star e (joinpath p ''latest'')))
             (only_in_errors e v (glob_star e (joinpath p ''latest''))
                (glob_star e (joinpath p v)) errors)
             [LogDebug ''Identified folders: %r'' (list_folders e p),
              LogDebug ''Latest version: %r'' [v]])
    \<and> (set (list_folders e p) = {''1.0'', ''2.3'', ''10.0''}
         \<and> the (parse_version e ''1.0'') < the (parse_version e ''10.0'')
         \<and> the (parse_version e ''2.3'') < the (parse_version e ''10.0'')
         \<longrightarrow> v = ''10.0'')"
proof -
  let ?K = "\<lambda>x. the (parse_version e x)"
  let ?fs = "list_folders e p"
  let ?v = "last_version_of vs"
  have v: "?v = last (sort_key ?K ?fs)" using pvs ne by (rule last_version_of_sort)
  from last_sort_key_split [OF ne, of ?K] obtain pre post where
    sp: "?fs = pre @ ?v # post"
    and le: "\<forall>x\<in>set pre. ?K x \<le> ?K ?v"
    and lt: "\<forall>x\<in>set post. ?K x < ?K ?v"
    unfolding v by blast
  have parse: "\<forall>x\<in>set ?fs. parse_version e x \<noteq> None"
    using pvs by (rule parse_versions_all_parse)
  have logged: "LogDebug ''Latest version: %r'' [?v]
      \<in> set (log_of (validate_directory e p errors))"
    using ne pvs by (rule latest_version_logged)
  have target: "path_exists e (joinpath p ''latest'') \<and> path_exists e (joinpath p ?v) \<longrightarrow>
         validate_directory e p errors =
           compare_common e (joinpath p ''latest'') (joinpath p ?v)
             (set_inter e (glob_star e (joinpath p ?v)) (glob_star e (joinpath p ''latest'')))
             (only_in_errors e ?v (glob_star e (joinpath p ''latest''))
                (glob_star e (joinpath p ?v)) errors)
             [LogDebug ''Identified folders: %r'' (list_folders e p),
              LogDebug ''Latest version: %r'' [?v]]"
  proof
    assume "path_exists e (joinpath p ''latest'') \<and> path_exists e (joinpath p ?v)"
    then have l: "path_exists e (joinpath p ''latest'')"
      and r: "path_exists e (joinpath p ?v)" by simp_all
    from ne pvs l r show "validate_directory e p errors =
           compare_common e (joinpath p ''latest'') (joinpath p ?v)
             (set_inter e (glob_star e (joinpath p ?v)) (glob_star e (joinpath p ''latest'')))
             (only_in_errors e ?v (glob_star e (joinpath p ''latest''))
                (glob_star e (joinpath p ?v)) errors)
             [LogDebug ''Identified folders: %r'' (list_folders e p),
              LogDebug ''Latest version: %r'' [?v]]"
      by (rule validate_directory_compares)
  qed
  have inst: "set ?fs = {''1.0'', ''2.3'', ''10.0''}
         \<and> ?K ''1.0'' < ?K ''10.0'' \<and> ?K ''2.3'' < ?K ''10.0'' \<longrightarrow> ?v = ''10.0''"
  proof
    assume h: "set ?fs = {''1.0'', ''2.3'', ''10.0''}
         \<and> ?K ''1.0'' < ?K ''10.0'' \<and> ?K ''2.3'' < ?K ''10.0''"
    then have names: "set ?fs = {''1.0'', ''2.3'', ''10.0''}"
      and k1: "?K ''1.0'' < ?K ''10.0''" and k2: "?K ''2.3'' < ?K ''10.0''" by simp_all
    have "''10.0'' \<in> set ?fs" unfolding names by simp
    with sp le lt have big: "?K ''10.0'' \<le> ?K ?v" by (rule split_greatest)
    have "?v \<in> set ?fs" using pvs ne by (rule last_version_of_listed)
    then have "?v = ''1.0'' \<or> ?v = ''2.3'' \<or> ?v = ''10.0''" unfolding names by simp
    then show "?v = ''10.0''"
    proof (elim disjE)
      assume c: "?v = ''1.0''"
      from big have "?K ''10.0'' \<le> ?K ''1.0''" unfolding c .
      with k1 show ?thesis by (simp add: not_le [symmetric])
    next
      assume c: "?v = ''2.3''"
      from big have "?K ''10.0'' \<le> ?K ''2.3''" unfolding c .
      with k2 show ?thesis by (simp add: not_le [symmetric])
    next
      assume "?v = ''10.0''"
      then show ?thesis .
    qed
  qed
  from sp parse le lt logged target inst show ?thesis
    by (intro exI [of _ ?v] exI [of _ pre] exI [of _ post] conjI)
qed

theorem greatest_version_is_compared_witness:
  "list_folders (tree_env versions_tree) onto \<noteq> [] \<and>
   parse_versions (tree_env versions_tree) (list_folders (tree_env versions_tree) onto)
     = Inr [([1], ''1.0''), ([10], ''10.0''), ([2, 3], ''2.3'')] \<and>
   set (list_folders (tree_env versions_tree) onto) = {''1.0'', ''2.3'', ''10.0''} \<and>
   the (parse_version (tree_env versions_tree) ''1.0'') < the (parse_version (tree_env versions_tree) ''10.0'') \<and>
   the (parse_version (tree_env versions_tree) ''2.3'') < the (parse_version (tree_env versions_tree) ''10.0'') \<and>
   path_exists (tree_env versions_tree) (joinpath onto ''latest'') \<and>
   path_exists (tree_env versions_tree) (joinpath onto ''10.0'') \<and>
   LogDebug ''Latest version: %r'' [''10.0'']
     \<in> set (log_of (validate_directory (tree_env versions_tree) onto [])) \<and>
   validate_directory (tree_env versions_tree) onto [] =
     compare_common (tree_env versions_tree) (joinpath onto ''latest'') (joinpath onto ''10.0'')
       (set_inter (tree_env versions_tree) (glob_star (tree_env versions_tree) (joinpath onto ''10.0'')) (glob_star (tree_env versions_tree) (joinpath onto ''latest'')))
       (only_in_errors (tree_env versions_tree) ''10.0'' (glob_star (tree_env versions_tree) (joinpath onto ''latest''))
          (glob_star (tree_env versions_tree) (joinpath onto ''10.0'')) [])
       [LogDebug ''Identified folders: %r'' (list_folders (tree_env versions_tree) onto),
        LogDebug ''Latest version: %r'' [''10.0'']]"
proof -
  have ne: "list_folders (tree_env versions_tree) onto \<noteq> []"
    by code_simp
  have pvs: "parse_versions (tree_env versions_tree) (list_folders (tree_env versions_tree) onto)
     = Inr [([1], ''1.0''), ([10], ''10.0''), ([2, 3], ''2.3'')]"
    by code_simp
  have names: "set (list_folders (tree_env versions_tree) onto) = {''1.0'', ''2.3'', ''10.0''}"
    by code_simp
  have k1: "the (parse_version (tree_env versions_tree) ''1.0'') < the (parse_version (tree_env versions_tree) ''10.0'')"
    by code_simp
  have k2: "the (parse_version (tree_env versions_tree) ''2.3'') < the (parse_version (tree_env versions_tree) ''10.0'')"
    by code_simp
  have l: "path_exists (tree_env versions_tree) (joinpath onto ''latest'')"
    by code_simp
  have r: "path_exists (tree_env versions_tree) (joinpath onto ''10.0'')"
    by code_simp
  from greatest_version_is_compared [OF ne pvs, of "[]"] obtain v pre post where
    c: "list_folders (tree_env versions_tree) onto = pre @ v # post
    \<and> (\<forall>x\<in>set (list_folders (tree_env versions_tree) onto). parse_version (tree_env versions_tree) x \<noteq> None)
    \<and> (\<forall>x\<in>set pre. the (parse_version (tree_env versions_tree) x) \<le> the (parse_version (tree_env versions_tree) v))
    \<and> (\<forall>x\<in>set post. the (parse_version (tree_env versions_tree) x) < the (parse_version (tree_env versions_tree) v))
    \<and> LogDebug ''Latest version: %r'' [v] \<in> set (log_of (validate_directory (tree_env versions_tree) onto []))
    \<and> (path_exists (tree_env versions_tree) (joinpath onto ''latest'') \<and> path_exists (tree_env versions_tree) (joinpath onto v) \<longrightarrow>
         validate_directory (tree_env versions_tree) onto [] =
         compare_common (tree_env versions_tree) (joinpath onto ''latest'') (joinpath onto v)
           (set_inter (tree_env versions_tree) (glob_star (tree_env versions_tree) (joinpath onto v)) (glob_star (tree_env versions_tree) (joinpath onto ''latest'')))
           (only_in_errors (tree_env versions_tree) v (glob_star (tree_env versions_tree) (joinpath onto ''latest''))
              (glob_star (tree_env versions_tree) (joinpath onto v)) [])
           [LogDebug ''Identified folders: %r'' (list_folders (tree_env versions_tree) onto),
            LogDebug ''Latest version: %r'' [v]])
    \<and> (set (list_folders (tree_env versions_tree) onto) = {''1.0'', ''2.3'', ''10.0''}
         \<and> the (parse_version (tree_env versions_tree) ''1.0'') < the (parse_version (tree_env versions_tree) ''10.0'')
         \<and> the (parse_version (tree_env versions_tree) ''2.3'') < the (parse_version (tree_env versions_tree) ''10.0'')
         \<longrightarrow> v = ''10.0'')"
    by (elim exE)
  note sel = c [THEN conjunct2, THEN conjunct2, THEN conjunct2, THEN conjunct2, THEN conjunct2,
    THEN conjunct2, THEN mp, OF conjI [OF names conjI [OF k1 k2]]]
  note logged = c [THEN conjunct2, THEN conjunct2, THEN conjunct2, THEN conjunct2,
    THEN conjunct1, unfolded sel]
  note target = c [THEN conjunct2, THEN conjunct2, THEN conjunct2, THEN conjunct2,
    THEN conjunct2, THEN conjunct1, unfolded sel, THEN mp, OF conjI [OF l r]]
  from ne pvs names k1 k2 l r logged target show ?thesis by (intro conjI)
qed

end
